theory Spec2Isabelle
  imports Complex_Main "HOL-Library.Char_ord" "HOL-Library.List_Lexorder"
    "HOL-Library.AList" "HOL-Library.Multiset"
begin

section \<open>LegacyDataProcessor (src/test-files/sample.py)\<close>

text \<open>
  A shallow embedding of the class \<open>LegacyDataProcessor\<close>. Python values are a datatype,
  a \<open>dict\<close> is an association list in insertion order (updated in place or appended, as
  Python does), exceptions are values of a sum type, and the instance's cache is passed
  explicitly. The leading underscore of the private methods is dropped
  (\<open>_normalize_data\<close> is \<open>normalize_data\<close>).
\<close>

subsection \<open>Strings\<close>

text \<open>
  A \<open>char\<close> is read as a code point below 256, so a \<open>string\<close> is a Python \<open>str\<close>
  over Latin-1. The predicates below are Python's \<open>str\<close> methods on that range.
\<close>

definition chr_isspace :: "char \<Rightarrow> bool" where
  "chr_isspace c =
     (let n = (of_char c :: nat)
      in (9 \<le> n \<and> n \<le> 13) \<or> (28 \<le> n \<and> n \<le> 32) \<or> n = 133 \<or> n = 160)"

definition chr_lower :: "char \<Rightarrow> char" where
  "chr_lower c =
     (let n = (of_char c :: nat)
      in if (65 \<le> n \<and> n \<le> 90) \<or> (192 \<le> n \<and> n \<le> 222 \<and> n \<noteq> 215)
         then char_of (n + 32) else c)"

definition chr_isdecimal :: "char \<Rightarrow> bool" where
  "chr_isdecimal c = (let n = (of_char c :: nat) in 48 \<le> n \<and> n \<le> 57)"

text \<open>\<open>str.isdigit\<close> also accepts the superscript digits U+00B2, U+00B3 and U+00B9.\<close>

definition chr_isdigit :: "char \<Rightarrow> bool" where
  "chr_isdigit c =
     (let n = (of_char c :: nat) in (48 \<le> n \<and> n \<le> 57) \<or> n = 178 \<or> n = 179 \<or> n = 185)"

definition chr_isupper_ascii :: "char \<Rightarrow> bool" where
  "chr_isupper_ascii c = (let n = (of_char c :: nat) in 65 \<le> n \<and> n \<le> 90)"

definition chr_islower_ascii :: "char \<Rightarrow> bool" where
  "chr_islower_ascii c = (let n = (of_char c :: nat) in 97 \<le> n \<and> n \<le> 122)"

definition str_lower :: "string \<Rightarrow> string" where
  "str_lower s = map chr_lower s"

definition str_strip :: "string \<Rightarrow> string" where
  "str_strip s = rev (dropWhile chr_isspace (rev (dropWhile chr_isspace s)))"

definition str_isdigit :: "string \<Rightarrow> bool" where
  "str_isdigit s = (s \<noteq> [] \<and> list_all chr_isdigit s)"

definition str_isspace :: "string \<Rightarrow> bool" where
  "str_isspace s = (s \<noteq> [] \<and> list_all chr_isspace s)"

definition startswith :: "string \<Rightarrow> string \<Rightarrow> bool" where
  "startswith s p = (take (length p) s = p)"

subsection \<open>Exceptions and values\<close>

datatype error = ValueError | OverflowError | ZeroDivisionError

text \<open>
  The values a payload is made of. The carrier \<open>'f\<close> of \<open>float\<close> is a parameter:
  floating-point arithmetic is supplied by the runtime record below.
\<close>

datatype 'f py =
    PNone
  | PBool bool
  | PInt int
  | PFloat 'f
  | PStr string
  | PList "'f py list"
  | PDict "(string \<times> 'f py) list"

text \<open>A \<open>datetime\<close>, in microseconds; naive or timezone-aware.\<close>

datatype pydatetime = NaiveDT int | AwareDT int

text \<open>
  What the module takes from the Python runtime and the standard library, as parameters:
  float arithmetic (\<open>None\<close> where Python raises \<open>OverflowError\<close>, or
  \<open>ZeroDivisionError\<close> for \<open>float_div\<close>; \<open>float_value\<close> is the value of a
  literal that \<open>float()\<close> accepts, \<open>float_repr\<close> the text \<open>json.dumps\<close> writes
  for a float), \<open>json.loads\<close> (\<open>None\<close> is \<open>JSONDecodeError\<close>), the MD5 hex
  digest of the encoded text, and \<open>datetime.fromisoformat\<close> (\<open>None\<close> is
  \<open>ValueError\<close>) with \<open>isoformat\<close>.
\<close>

record 'f runtime =
  float_value :: "string \<Rightarrow> 'f"
  float_of_int :: "int \<Rightarrow> 'f option"
  float_add :: "'f \<Rightarrow> 'f \<Rightarrow> 'f"
  float_div :: "'f \<Rightarrow> 'f \<Rightarrow> 'f option"
  int_truediv :: "int \<Rightarrow> int \<Rightarrow> 'f option"
  float_lt :: "'f \<Rightarrow> 'f \<Rightarrow> bool"
  float_le :: "'f \<Rightarrow> 'f \<Rightarrow> bool"
  int_lt_float :: "int \<Rightarrow> 'f \<Rightarrow> bool"
  float_lt_int :: "'f \<Rightarrow> int \<Rightarrow> bool"
  float_is_zero :: "'f \<Rightarrow> bool"
  float_repr :: "'f \<Rightarrow> string"
  json_loads :: "string \<Rightarrow> 'f py option"
  md5_hexdigest :: "string \<Rightarrow> string"
  fromisoformat :: "string \<Rightarrow> pydatetime option"
  isoformat :: "pydatetime \<Rightarrow> string"

subsection \<open>int() and float() of a string\<close>

text \<open>
  \<open>int(value)\<close> is only called on a string for which \<open>isdigit()\<close> holds; on such a
  string it succeeds exactly when every character is a decimal digit, and raises
  \<open>ValueError\<close> otherwise. (The interpreter's configurable limit on the number of
  digits of an integer literal is not modelled.)
\<close>

definition digit_val :: "char \<Rightarrow> int" where
  "digit_val c = int (of_char c) - 48"

definition int_of_str :: "string \<Rightarrow> int option" where
  "int_of_str s =
     (if s \<noteq> [] \<and> list_all chr_isdecimal s
      then Some (foldl (\<lambda>a c. 10 * a + digit_val c) 0 s) else None)"

text \<open>
  The literals \<open>float()\<close> accepts: surrounding whitespace is dropped, case is not
  significant, and the rest is \<open>[sign] (number [exponent] | inf | infinity | nan)\<close>, with
  single underscores allowed between digits.
\<close>

definition chr_float_space :: "char \<Rightarrow> bool" where
  "chr_float_space c =
     (let n = (of_char c :: nat) in (9 \<le> n \<and> n \<le> 13) \<or> n = 32 \<or> n = 133 \<or> n = 160)"

definition float_strip :: "string \<Rightarrow> string" where
  "float_strip s = rev (dropWhile chr_float_space (rev (dropWhile chr_float_space s)))"

fun digitpart_rest :: "string \<Rightarrow> string" where
  "digitpart_rest [] = []"
| "digitpart_rest [c] = (if chr_isdecimal c then [] else [c])"
| "digitpart_rest (c # d # cs) =
     (if chr_isdecimal c then digitpart_rest (d # cs)
      else if c = CHR ''_'' \<and> chr_isdecimal d then digitpart_rest cs
      else c # d # cs)"

definition digitpart :: "string \<Rightarrow> string option" where
  "digitpart s =
     (case s of [] \<Rightarrow> None
      | c # cs \<Rightarrow> if chr_isdecimal c then Some (digitpart_rest cs) else None)"

definition float_number :: "string \<Rightarrow> string option" where
  "float_number s =
     (case digitpart s of
        Some r \<Rightarrow>
          (case r of
             [] \<Rightarrow> Some r
           | c # r' \<Rightarrow>
               if c = CHR ''.''
               then (case digitpart r' of Some r'' \<Rightarrow> Some r'' | None \<Rightarrow> Some r')
               else Some r)
      | None \<Rightarrow>
          (case s of [] \<Rightarrow> None
           | c # r' \<Rightarrow> if c = CHR ''.'' then digitpart r' else None))"

definition drop_sign :: "string \<Rightarrow> string" where
  "drop_sign s =
     (case s of [] \<Rightarrow> []
      | c # cs \<Rightarrow> if c = CHR ''+'' \<or> c = CHR ''-'' then cs else s)"

definition float_exponent :: "string \<Rightarrow> string option" where
  "float_exponent s =
     (case s of [] \<Rightarrow> None
      | c # cs \<Rightarrow> if c = CHR ''e'' then digitpart (drop_sign cs) else None)"

definition float_literal :: "string \<Rightarrow> bool" where
  "float_literal u =
     (u = ''inf'' \<or> u = ''infinity'' \<or> u = ''nan'' \<or>
      (case float_number u of
         None \<Rightarrow> False
       | Some r \<Rightarrow> r = [] \<or> float_exponent r = Some []))"

definition float_syntax :: "string \<Rightarrow> bool" where
  "float_syntax s = float_literal (drop_sign (str_lower (float_strip s)))"

definition float_of_str :: "'f runtime \<Rightarrow> string \<Rightarrow> 'f option" where
  "float_of_str rt s = (if float_syntax s then Some (float_value rt s) else None)"

subsection \<open>normalize\<close>

text \<open>Lines 78-89: the coercion of a string value stored under a mapping key.\<close>

definition normalize_str :: "'f runtime \<Rightarrow> string \<Rightarrow> error + 'f py" where
  "normalize_str rt v =
     (if str_lower v \<in> set [''true'', ''yes'', ''1''] then Inr (PBool True)
      else if str_lower v \<in> set [''false'', ''no'', ''0''] then Inr (PBool False)
      else if str_isdigit v
      then (case int_of_str v of None \<Rightarrow> Inl ValueError | Some n \<Rightarrow> Inr (PInt n))
      else (case float_of_str rt v of
              Some f \<Rightarrow> Inr (PFloat f)
            | None \<Rightarrow> Inr (PStr (str_lower (str_strip v)))))"

text \<open>
  \<open>normalize_items\<close> is the loop over \<open>data.items()\<close> with the dict \<open>normalized\<close> as
  accumulator; \<open>normalize_list\<close> is the list comprehension.
\<close>

fun normalize_data :: "'f runtime \<Rightarrow> 'f py \<Rightarrow> error + 'f py"
  and normalize_items ::
    "'f runtime \<Rightarrow> (string \<times> 'f py) list \<Rightarrow> (string \<times> 'f py) list \<Rightarrow> error + 'f py"
  and normalize_list :: "'f runtime \<Rightarrow> 'f py list \<Rightarrow> error + 'f py list"
where
  "normalize_data rt (PDict kvs) = normalize_items rt kvs []"
| "normalize_data rt (PList xs) =
     (case normalize_list rt xs of Inl e \<Rightarrow> Inl e | Inr ys \<Rightarrow> Inr (PList ys))"
| "normalize_data rt PNone = Inr PNone"
| "normalize_data rt (PBool b) = Inr (PBool b)"
| "normalize_data rt (PInt i) = Inr (PInt i)"
| "normalize_data rt (PFloat f) = Inr (PFloat f)"
| "normalize_data rt (PStr s) = Inr (PStr s)"
| "normalize_items rt [] normalized = Inr (PDict normalized)"
| "normalize_items rt ((key, PStr s) # rest) normalized =
     (case normalize_str rt s of
        Inl e \<Rightarrow> Inl e
      | Inr v \<Rightarrow> normalize_items rt rest (AList.update (str_lower key) v normalized))"
| "normalize_items rt ((key, PList xs) # rest) normalized =
     (case normalize_data rt (PList xs) of
        Inl e \<Rightarrow> Inl e
      | Inr v \<Rightarrow> normalize_items rt rest (AList.update (str_lower key) v normalized))"
| "normalize_items rt ((key, PDict d) # rest) normalized =
     (case normalize_data rt (PDict d) of
        Inl e \<Rightarrow> Inl e
      | Inr v \<Rightarrow> normalize_items rt rest (AList.update (str_lower key) v normalized))"
| "normalize_items rt ((key, v) # rest) normalized =
     normalize_items rt rest (AList.update (str_lower key) v normalized)"
| "normalize_list rt [] = Inr []"
| "normalize_list rt (x # xs) =
     (case normalize_data rt x of
        Inl e \<Rightarrow> Inl e
      | Inr y \<Rightarrow> (case normalize_list rt xs of Inl e \<Rightarrow> Inl e | Inr ys \<Rightarrow> Inr (y # ys)))"

subsection \<open>The key deriver\<close>

text \<open>
  \<open>json.dumps(data, sort_keys=True, default=str)\<close> on a payload: the default
  separators, \<open>ensure_ascii\<close>, and the items of every mapping sorted by key (keys are
  strings, compared by code point).
\<close>

definition hex_digit :: "nat \<Rightarrow> char" where
  "hex_digit n = ''0123456789abcdef'' ! (n mod 16)"

definition json_escape_char :: "char \<Rightarrow> string" where
  "json_escape_char c =
     (let n = (of_char c :: nat)
      in if c = CHR 0x5C then [CHR 0x5C, CHR 0x5C]
         else if c = CHR 0x22 then [CHR 0x5C, CHR 0x22]
         else if n = 8 then [CHR 0x5C, CHR ''b'']
         else if n = 12 then [CHR 0x5C, CHR ''f'']
         else if n = 10 then [CHR 0x5C, CHR ''n'']
         else if n = 13 then [CHR 0x5C, CHR ''r'']
         else if n = 9 then [CHR 0x5C, CHR ''t'']
         else if n < 32 \<or> 126 < n
         then [CHR 0x5C, CHR ''u'', CHR ''0'', CHR ''0'', hex_digit (n div 16), hex_digit n]
         else [c])"

definition json_string :: "string \<Rightarrow> string" where
  "json_string s = [CHR 0x22] @ concat (map json_escape_char s) @ [CHR 0x22]"

fun show_nat :: "nat \<Rightarrow> string" where
  "show_nat n =
     (if n < 10 then [char_of (48 + n)] else show_nat (n div 10) @ [char_of (48 + n mod 10)])"

declare show_nat.simps [simp del]

definition show_int :: "int \<Rightarrow> string" where
  "show_int i = (if i < 0 then ''-'' @ show_nat (nat (- i)) else show_nat (nat i))"

fun str_join :: "string \<Rightarrow> string list \<Rightarrow> string" where
  "str_join sep [] = []"
| "str_join sep [x] = x"
| "str_join sep (x # y # ys) = x @ sep @ str_join sep (y # ys)"

fun json_dumps :: "'f runtime \<Rightarrow> 'f py \<Rightarrow> string" where
  "json_dumps rt PNone = ''null''"
| "json_dumps rt (PBool b) = (if b then ''true'' else ''false'')"
| "json_dumps rt (PInt i) = show_int i"
| "json_dumps rt (PFloat f) = float_repr rt f"
| "json_dumps rt (PStr s) = json_string s"
| "json_dumps rt (PList xs) = ''['' @ str_join '', '' (map (json_dumps rt) xs) @ '']''"
| "json_dumps rt (PDict kvs) =
     ''{'' @ str_join '', ''
        (map (\<lambda>kv. json_string (fst kv) @ '': '' @ json_dumps rt (snd kv)) (sort_key fst kvs))
     @ ''}''"

definition generate_cache_key :: "'f runtime \<Rightarrow> 'f py \<Rightarrow> string \<Rightarrow> string" where
  "generate_cache_key rt d processing_type =
     (let data_str = json_dumps rt d;
          key_input = processing_type @ '':'' @ data_str
      in md5_hexdigest rt key_input)"

subsection \<open>aggregate\<close>

definition type_name :: "'f py \<Rightarrow> string" where
  "type_name v =
     (case v of PNone \<Rightarrow> ''NoneType'' | PBool _ \<Rightarrow> ''bool'' | PInt _ \<Rightarrow> ''int''
      | PFloat _ \<Rightarrow> ''float'' | PStr _ \<Rightarrow> ''str'' | PList _ \<Rightarrow> ''list''
      | PDict _ \<Rightarrow> ''dict'')"

text \<open>Lines 113-115: the histogram loop, with \<open>result['types']\<close> as accumulator.\<close>

fun count_types :: "'f py list \<Rightarrow> (string \<times> int) list \<Rightarrow> (string \<times> int) list" where
  "count_types [] types = types"
| "count_types (item # rest) types =
     count_types rest
       (AList.update (type_name item)
          ((case map_of types (type_name item) of None \<Rightarrow> 0 | Some n \<Rightarrow> n) + 1) types)"

text \<open>
  The elements for which \<open>isinstance(item, (int, float))\<close> holds; \<open>bool\<close> is a
  subclass of \<open>int\<close>.
\<close>

datatype 'f num = NBool bool | NInt int | NFloat 'f

fun numeric_values :: "'f py list \<Rightarrow> 'f num list" where
  "numeric_values [] = []"
| "numeric_values (PBool b # rest) = NBool b # numeric_values rest"
| "numeric_values (PInt i # rest) = NInt i # numeric_values rest"
| "numeric_values (PFloat f # rest) = NFloat f # numeric_values rest"
| "numeric_values (_ # rest) = numeric_values rest"

definition py_of_num :: "'f num \<Rightarrow> 'f py" where
  "py_of_num x = (case x of NBool b \<Rightarrow> PBool b | NInt i \<Rightarrow> PInt i | NFloat f \<Rightarrow> PFloat f)"

definition int_of_bool :: "bool \<Rightarrow> int" where
  "int_of_bool b = (if b then 1 else 0)"

text \<open>\<open>a < b\<close> on numbers; a \<open>bool\<close> compares as the integer 0 or 1.\<close>

fun num_lt :: "'f runtime \<Rightarrow> 'f num \<Rightarrow> 'f num \<Rightarrow> bool" where
  "num_lt rt (NFloat f) (NFloat g) = float_lt rt f g"
| "num_lt rt (NFloat f) (NInt j) = float_lt_int rt f j"
| "num_lt rt (NFloat f) (NBool c) = float_lt_int rt f (int_of_bool c)"
| "num_lt rt (NInt i) (NFloat g) = int_lt_float rt i g"
| "num_lt rt (NBool b) (NFloat g) = int_lt_float rt (int_of_bool b) g"
| "num_lt rt (NInt i) (NInt j) = (i < j)"
| "num_lt rt (NInt i) (NBool c) = (i < int_of_bool c)"
| "num_lt rt (NBool b) (NInt j) = (int_of_bool b < j)"
| "num_lt rt (NBool b) (NBool c) = (int_of_bool b < int_of_bool c)"

text \<open>\<open>min\<close> and \<open>max\<close> keep the first extremal element, on a non-empty list.\<close>

definition py_min :: "'f runtime \<Rightarrow> 'f num \<Rightarrow> 'f num list \<Rightarrow> 'f num" where
  "py_min rt x xs = foldl (\<lambda>m item. if num_lt rt item m then item else m) x xs"

definition py_max :: "'f runtime \<Rightarrow> 'f num \<Rightarrow> 'f num list \<Rightarrow> 'f num" where
  "py_max rt x xs = foldl (\<lambda>m item. if num_lt rt m item then item else m) x xs"

text \<open>
  \<open>acc + item\<close> in \<open>sum\<close>: the accumulator is an \<open>int\<close> or a \<open>float\<close>; adding an
  \<open>int\<close> to a \<open>float\<close> converts it and may raise \<open>OverflowError\<close>.
\<close>

fun num_add :: "'f runtime \<Rightarrow> 'f num \<Rightarrow> 'f num \<Rightarrow> error + 'f num" where
  "num_add rt (NFloat f) (NFloat g) = Inr (NFloat (float_add rt f g))"
| "num_add rt (NFloat f) (NInt j) =
     (case float_of_int rt j of None \<Rightarrow> Inl OverflowError
      | Some g \<Rightarrow> Inr (NFloat (float_add rt f g)))"
| "num_add rt (NFloat f) (NBool c) =
     (case float_of_int rt (int_of_bool c) of None \<Rightarrow> Inl OverflowError
      | Some g \<Rightarrow> Inr (NFloat (float_add rt f g)))"
| "num_add rt (NInt i) (NFloat g) =
     (case float_of_int rt i of None \<Rightarrow> Inl OverflowError
      | Some f \<Rightarrow> Inr (NFloat (float_add rt f g)))"
| "num_add rt (NBool b) (NFloat g) =
     (case float_of_int rt (int_of_bool b) of None \<Rightarrow> Inl OverflowError
      | Some f \<Rightarrow> Inr (NFloat (float_add rt f g)))"
| "num_add rt (NInt i) (NInt j) = Inr (NInt (i + j))"
| "num_add rt (NInt i) (NBool c) = Inr (NInt (i + int_of_bool c))"
| "num_add rt (NBool b) (NInt j) = Inr (NInt (int_of_bool b + j))"
| "num_add rt (NBool b) (NBool c) = Inr (NInt (int_of_bool b + int_of_bool c))"

fun py_sum_from :: "'f runtime \<Rightarrow> 'f num \<Rightarrow> 'f num list \<Rightarrow> error + 'f num" where
  "py_sum_from rt acc [] = Inr acc"
| "py_sum_from rt acc (x # xs) =
     (case num_add rt acc x of Inl e \<Rightarrow> Inl e | Inr acc' \<Rightarrow> py_sum_from rt acc' xs)"

definition py_sum :: "'f runtime \<Rightarrow> 'f num list \<Rightarrow> error + 'f num" where
  "py_sum rt xs = py_sum_from rt (NInt 0) xs"

text \<open>\<open>total / n\<close> for an \<open>int\<close> \<open>n\<close>: true division.\<close>

fun num_truediv :: "'f runtime \<Rightarrow> 'f num \<Rightarrow> int \<Rightarrow> error + 'f" where
  "num_truediv rt (NFloat f) n =
     (case float_of_int rt n of None \<Rightarrow> Inl OverflowError
      | Some g \<Rightarrow> (case float_div rt f g of None \<Rightarrow> Inl ZeroDivisionError | Some q \<Rightarrow> Inr q))"
| "num_truediv rt (NInt i) n =
     (if n = 0 then Inl ZeroDivisionError
      else case int_truediv rt i n of None \<Rightarrow> Inl OverflowError | Some q \<Rightarrow> Inr q)"
| "num_truediv rt (NBool b) n =
     (if n = 0 then Inl ZeroDivisionError
      else case int_truediv rt (int_of_bool b) n of None \<Rightarrow> Inl OverflowError
           | Some q \<Rightarrow> Inr q)"

text \<open>Lines 118-125.\<close>

definition numeric_stats :: "'f runtime \<Rightarrow> 'f py list \<Rightarrow> error + 'f py" where
  "numeric_stats rt xs =
     (case numeric_values xs of
        [] \<Rightarrow> Inr (PDict [])
      | v # vs \<Rightarrow>
          (case py_sum rt (v # vs) of
             Inl e \<Rightarrow> Inl e
           | Inr total_sum \<Rightarrow>
               (case num_truediv rt total_sum (int (length (v # vs))) of
                  Inl e \<Rightarrow> Inl e
                | Inr avg \<Rightarrow>
                    Inr (PDict [(''min'', py_of_num (py_min rt v vs)),
                                (''max'', py_of_num (py_max rt v vs)),
                                (''avg'', PFloat avg),
                                (''sum'', py_of_num total_sum)]))))"

fun string_values :: "'f py list \<Rightarrow> string list" where
  "string_values [] = []"
| "string_values (PStr s # rest) = s # string_values rest"
| "string_values (_ # rest) = string_values rest"

text \<open>Lines 128-134.\<close>

definition string_stats :: "'f runtime \<Rightarrow> 'f py list \<Rightarrow> error + 'f py" where
  "string_stats rt xs =
     (case string_values xs of
        [] \<Rightarrow> Inr (PDict [])
      | s # ss \<Rightarrow>
          (let total_length = int (sum_list (map length (s # ss)))
           in case num_truediv rt (NInt total_length) (int (length (s # ss))) of
                Inl e \<Rightarrow> Inl e
              | Inr avg \<Rightarrow>
                  Inr (PDict [(''total_length'', PInt total_length),
                              (''avg_length'', PFloat avg),
                              (''unique_count'', PInt (int (length (remdups (s # ss)))))])))"

definition aggregate_data :: "'f runtime \<Rightarrow> 'f py \<Rightarrow> error + 'f py" where
  "aggregate_data rt d =
     (case d of
        PList xs \<Rightarrow>
          (case numeric_stats rt xs of
             Inl e \<Rightarrow> Inl e
           | Inr ns \<Rightarrow>
               (case string_stats rt xs of
                  Inl e \<Rightarrow> Inl e
                | Inr ss \<Rightarrow>
                    Inr (PDict [(''count'', PInt (int (length xs))),
                                (''types'', PDict (map (\<lambda>(k, n). (k, PInt n)) (count_types xs []))),
                                (''numeric_stats'', ns),
                                (''string_stats'', ss)])))
      | _ \<Rightarrow> Inr (PDict [(''error'', PStr ''Data must be a list for aggregation'')]))"

subsection \<open>filter\<close>

text \<open>
  \<open>datetime.now()\<close> is read from a clock: \<open>clock n\<close> is the \<open>n\<close>-th reading made
  during one call of \<open>process_data\<close>, in microseconds. Functions that read it take the
  number of readings made so far and return the new number.
\<close>

type_synonym clock = "nat \<Rightarrow> int"

definition timedelta_seconds :: "int \<Rightarrow> int" where
  "timedelta_seconds n = n * 1000000"

definition timedelta_days :: "int \<Rightarrow> int" where
  "timedelta_days n = n * 86400 * 1000000"

text \<open>
  \<open>float(x)\<close> inside \<open>try ... except (ValueError, TypeError): pass\<close>: \<open>Inr None\<close> is
  a caught exception; \<open>OverflowError\<close> is not caught.
\<close>

definition try_float :: "'f runtime \<Rightarrow> 'f py \<Rightarrow> error + 'f option" where
  "try_float rt v =
     (case v of
        PStr s \<Rightarrow> Inr (float_of_str rt s)
      | PFloat f \<Rightarrow> Inr (Some f)
      | PInt i \<Rightarrow>
          (case float_of_int rt i of None \<Rightarrow> Inl OverflowError | Some f \<Rightarrow> Inr (Some f))
      | PBool b \<Rightarrow>
          (case float_of_int rt (int_of_bool b) of None \<Rightarrow> Inl OverflowError
           | Some f \<Rightarrow> Inr (Some f))
      | _ \<Rightarrow> Inr None)"

text \<open>Lines 177-185: the \<open>created_at\<close> rule; \<open>None\<close> is \<open>pass\<close>.\<close>

definition created_at_rule ::
  "'f runtime \<Rightarrow> clock \<Rightarrow> nat \<Rightarrow> 'f py \<Rightarrow> bool option \<times> nat" where
  "created_at_rule rt clock n v =
     (case v of
        PStr s \<Rightarrow>
          (case fromisoformat rt s of
             None \<Rightarrow> (None, n)
           | Some (NaiveDT created) \<Rightarrow> (Some (clock n - created < timedelta_days 365), Suc n)
           | Some (AwareDT _) \<Rightarrow> (None, Suc n))
      | _ \<Rightarrow> (None, n))"

definition should_include_dict ::
  "'f runtime \<Rightarrow> clock \<Rightarrow> nat \<Rightarrow> (string \<times> 'f py) list \<Rightarrow> error + bool \<times> nat" where
  "should_include_dict rt clock n item =
     (let status_rule =
            (case map_of item ''status'' of
               None \<Rightarrow> None
             | Some st \<Rightarrow>
                 if st \<in> set [PStr ''active'', PStr ''enabled'', PStr ''valid''] then Some True
                 else if st \<in> set [PStr ''inactive'', PStr ''disabled'', PStr ''invalid'']
                 then Some False else None);
          created_rule =
            (case map_of item ''created_at'' of
               None \<Rightarrow> Inr (True, n)
             | Some v \<Rightarrow>
                 (case created_at_rule rt clock n v of
                    (Some b, n') \<Rightarrow> Inr (b, n')
                  | (None, n') \<Rightarrow> Inr (True, n')))
      in case status_rule of
           Some b \<Rightarrow> Inr (b, n)
         | None \<Rightarrow>
             (case map_of item ''score'' of
                None \<Rightarrow> created_rule
              | Some sc \<Rightarrow>
                  (case try_float rt sc of
                     Inl e \<Rightarrow> Inl e
                   | Inr (Some score) \<Rightarrow> Inr (float_le rt (float_value rt ''0.5'') score, n)
                   | Inr None \<Rightarrow> created_rule)))"

text \<open>Lines 142-154: the loop over a list, with \<open>filtered\<close> built in order.\<close>

fun filter_items ::
  "'f runtime \<Rightarrow> clock \<Rightarrow> nat \<Rightarrow> 'f py list \<Rightarrow> error + 'f py list \<times> nat" where
  "filter_items rt clock n [] = Inr ([], n)"
| "filter_items rt clock n (item # rest) =
     (case (case item of
              PDict d \<Rightarrow> should_include_dict rt clock n d
            | PStr s \<Rightarrow> Inr (0 < length s \<and> \<not> str_isspace s, n)
            | PBool b \<Rightarrow> Inr (0 < int_of_bool b, n)
            | PInt i \<Rightarrow> Inr (0 < i, n)
            | PFloat f \<Rightarrow> Inr (int_lt_float rt 0 f, n)
            | _ \<Rightarrow> Inr (True, n)) of
        Inl e \<Rightarrow> Inl e
      | Inr (keep, n') \<Rightarrow>
          (case filter_items rt clock n' rest of
             Inl e \<Rightarrow> Inl e
           | Inr (filtered, n'') \<Rightarrow> Inr (if keep then item # filtered else filtered, n'')))"

definition filter_data ::
  "'f runtime \<Rightarrow> clock \<Rightarrow> nat \<Rightarrow> 'f py \<Rightarrow> error + 'f py \<times> nat" where
  "filter_data rt clock n d =
     (case d of
        PList xs \<Rightarrow>
          (case filter_items rt clock n xs of
             Inl e \<Rightarrow> Inl e
           | Inr (filtered, n') \<Rightarrow> Inr (PList filtered, n'))
      | _ \<Rightarrow> Inr (d, n))"

subsection \<open>transform\<close>

text \<open>
  \<open>re.sub('(.)([A-Z][a-z]+)', r'\1_\2', key)\<close>, scanning from the left for
  non-overlapping matches; \<open>.\<close> is any character but a newline and \<open>+\<close> is greedy.
\<close>

function camel_words :: "string \<Rightarrow> string" where
  "camel_words (c # u # l # rest) =
     (if c \<noteq> CHR 0x0A \<and> chr_isupper_ascii u \<and> chr_islower_ascii l
      then c # CHR ''_'' # u # l # takeWhile chr_islower_ascii rest
             @ camel_words (dropWhile chr_islower_ascii rest)
      else c # camel_words (u # l # rest))"
| "camel_words [c, u] = [c, u]"
| "camel_words [c] = [c]"
| "camel_words [] = []"
  by pat_completeness auto
termination
  by (relation "measure length") (auto simp: length_dropWhile_le less_Suc_eq_le le_SucI)

text \<open>\<open>re.sub('([a-z0-9])([A-Z])', r'\1_\2', s1)\<close>.\<close>

fun camel_humps :: "string \<Rightarrow> string" where
  "camel_humps (a # u # rest) =
     (if (chr_islower_ascii a \<or> chr_isdecimal a) \<and> chr_isupper_ascii u
      then a # CHR ''_'' # u # camel_humps rest
      else a # camel_humps (u # rest))"
| "camel_humps [a] = [a]"
| "camel_humps [] = []"

definition transform_key :: "string \<Rightarrow> string" where
  "transform_key key = (let s1 = camel_words key in str_lower (camel_humps s1))"

text \<open>
  The date patterns of \<open>_is_date_string\<close>, matched at the start of the string:
  \<open>None\<close> stands for \<open>\d\<close>, \<open>Some c\<close> for the character \<open>c\<close>.
\<close>

fun re_match :: "char option list \<Rightarrow> string \<Rightarrow> bool" where
  "re_match [] s = True"
| "re_match (p # ps) [] = False"
| "re_match (None # ps) (c # cs) = (chr_isdecimal c \<and> re_match ps cs)"
| "re_match (Some x # ps) (c # cs) = (c = x \<and> re_match ps cs)"

definition date_patterns :: "char option list list" where
  "date_patterns =
     [[None, None, None, None, Some CHR ''-'', None, None, Some CHR ''-'', None, None],
      [None, None, Some CHR ''/'', None, None, Some CHR ''/'', None, None, None, None],
      [None, None, None, None, Some CHR ''-'', None, None, Some CHR ''-'', None, None,
       Some CHR ''T'', None, None, Some CHR '':'', None, None, Some CHR '':'', None, None]]"

definition is_date_string :: "string \<Rightarrow> bool" where
  "is_date_string v = list_ex (\<lambda>pattern. re_match pattern v) date_patterns"

text \<open>
  \<open>_extract_domain\<close>: \<open>urlparse(url).netloc\<close>, with any exception turned into the empty string: leading
  control characters and spaces are dropped, tabs and line breaks removed, a scheme is
  split off at the first colon, and after \<open>//\<close> the network location runs up to the first
  of \<open>/\<close>, \<open>?\<close>, \<open>#\<close>. A network location with one square bracket but not the
  other raises \<open>ValueError\<close>.
\<close>

definition chr_scheme :: "char \<Rightarrow> bool" where
  "chr_scheme c =
     (chr_islower_ascii c \<or> chr_isupper_ascii c \<or> chr_isdecimal c \<or> c \<in> set ''+-.'')"

definition drop_scheme :: "string \<Rightarrow> string" where
  "drop_scheme url =
     (let prefix = takeWhile (\<lambda>c. c \<noteq> CHR '':'') url
      in if length prefix < length url \<and> prefix \<noteq> []
            \<and> (chr_islower_ascii (hd prefix) \<or> chr_isupper_ascii (hd prefix))
            \<and> list_all chr_scheme prefix
         then drop (Suc (length prefix)) url else url)"

definition extract_domain :: "string \<Rightarrow> string" where
  "extract_domain url0 =
     (let url1 = dropWhile (\<lambda>c. (of_char c :: nat) \<le> 32) url0;
          url2 = filter (\<lambda>c. (of_char c :: nat) \<notin> {9, 10, 13}) url1;
          url = drop_scheme url2;
          netloc = (if take 2 url = ''//''
                    then takeWhile (\<lambda>c. c \<notin> set ''/?#'') (drop 2 url) else [])
      in if (CHR ''['' \<in> set netloc) \<noteq> (CHR '']'' \<in> set netloc) then [] else netloc)"

definition transform_str :: "'f runtime \<Rightarrow> string \<Rightarrow> 'f py" where
  "transform_str rt v =
     (if is_date_string v
      then (case fromisoformat rt v of Some d \<Rightarrow> PStr (isoformat rt d) | None \<Rightarrow> PStr v)
      else if startswith v ''http://'' \<or> startswith v ''https://''
      then PDict [(''url'', PStr v), (''domain'', PStr (extract_domain v))]
      else PStr v)"

text \<open>
  \<open>transform_items\<close> is the loop over \<open>data.items()\<close> with \<open>transformed\<close> as
  accumulator; \<open>transform_list\<close> is the list comprehension.
\<close>

fun transform_data :: "'f runtime \<Rightarrow> 'f py \<Rightarrow> 'f py"
  and transform_items ::
    "'f runtime \<Rightarrow> (string \<times> 'f py) list \<Rightarrow> (string \<times> 'f py) list \<Rightarrow> 'f py"
  and transform_list :: "'f runtime \<Rightarrow> 'f py list \<Rightarrow> 'f py list"
  and transform_value :: "'f runtime \<Rightarrow> 'f py \<Rightarrow> 'f py"
where
  "transform_data rt (PDict kvs) = transform_items rt kvs []"
| "transform_data rt (PList xs) = PList (transform_list rt xs)"
| "transform_data rt PNone = PNone"
| "transform_data rt (PBool b) = PBool b"
| "transform_data rt (PInt i) = PInt i"
| "transform_data rt (PFloat f) = PFloat f"
| "transform_data rt (PStr s) = PStr s"
| "transform_items rt [] transformed = PDict transformed"
| "transform_items rt ((key, v) # rest) transformed =
     (let new_key = transform_key key;
          new_value = transform_value rt v
      in transform_items rt rest (AList.update new_key new_value transformed))"
| "transform_list rt [] = []"
| "transform_list rt (x # xs) = transform_data rt x # transform_list rt xs"
| "transform_value rt (PStr s) = transform_str rt s"
| "transform_value rt (PDict d) = transform_data rt (PDict d)"
| "transform_value rt (PList xs) = transform_data rt (PList xs)"
| "transform_value rt PNone = PNone"
| "transform_value rt (PBool b) = PBool b"
| "transform_value rt (PInt i) = PInt i"
| "transform_value rt (PFloat f) = PFloat f"

definition default_processing :: "'f py \<Rightarrow> 'f py" where
  "default_processing d = d"

subsection \<open>The cache and the dispatcher\<close>

record 'f cache_entry =
  entry_data :: "'f py"
  entry_timestamp :: int

type_synonym 'f cache = "(string \<times> 'f cache_entry) list"

record config =
  max_cache_size :: int
  cache_ttl :: int

text \<open>\<open>not data\<close>: the values Python takes as false.\<close>

definition py_falsy :: "'f runtime \<Rightarrow> 'f py \<Rightarrow> bool" where
  "py_falsy rt v =
     (case v of
        PNone \<Rightarrow> True
      | PBool b \<Rightarrow> \<not> b
      | PInt i \<Rightarrow> i = 0
      | PFloat f \<Rightarrow> float_is_zero rt f
      | PStr s \<Rightarrow> s = []
      | PList xs \<Rightarrow> xs = []
      | PDict kvs \<Rightarrow> kvs = [])"

text \<open>
  Lines 32-39: the lookup. The result is the cached data on a hit, the cache (without
  the entry when it had expired) and the number of clock readings made.
\<close>

definition cache_lookup ::
  "config \<Rightarrow> clock \<Rightarrow> string \<Rightarrow> 'f cache \<Rightarrow> 'f py option \<times> 'f cache \<times> nat" where
  "cache_lookup cfg clock cache_key cache =
     (case map_of cache cache_key of
        None \<Rightarrow> (None, cache, 0)
      | Some e \<Rightarrow>
          if clock 0 - entry_timestamp e < timedelta_seconds (cache_ttl cfg)
          then (Some (entry_data e), cache, 1)
          else (None, AList.delete cache_key cache, 1))"

text \<open>
  \<open>min(self.cache.keys(), key=lambda k: self.cache[k]['timestamp'])\<close>: the first key
  whose timestamp is minimal; \<open>ValueError\<close> on an empty cache.
\<close>

definition oldest_key :: "'f cache \<Rightarrow> error + string" where
  "oldest_key cache =
     (case cache of
        [] \<Rightarrow> Inl ValueError
      | e # es \<Rightarrow>
          Inr (fst (foldl (\<lambda>m x. if entry_timestamp (snd x) < entry_timestamp (snd m)
                                   then x else m) e es)))"

text \<open>Lines 55-68: the write-back, with \<open>now\<close> the reading of the clock.\<close>

definition cache_store ::
  "config \<Rightarrow> int \<Rightarrow> string \<Rightarrow> 'f py \<Rightarrow> 'f cache \<Rightarrow> error + 'f cache" where
  "cache_store cfg now cache_key processed_data cache =
     (let entry = \<lparr>entry_data = processed_data, entry_timestamp = now\<rparr>
      in if int (length cache) < max_cache_size cfg
         then Inr (AList.update cache_key entry cache)
         else if int (length cache) \<ge> max_cache_size cfg
         then (case oldest_key cache of
                 Inl e \<Rightarrow> Inl e
               | Inr k \<Rightarrow> Inr (AList.update cache_key entry (AList.delete k cache)))
         else Inr cache)"

text \<open>Lines 42-52: the dispatch on the processing type.\<close>

definition dispatch ::
  "'f runtime \<Rightarrow> clock \<Rightarrow> nat \<Rightarrow> 'f py \<Rightarrow> string \<Rightarrow> error + 'f py \<times> nat" where
  "dispatch rt clock n d processing_type =
     (if processing_type = ''normalize''
      then (case normalize_data rt d of Inl e \<Rightarrow> Inl e | Inr r \<Rightarrow> Inr (r, n))
      else if processing_type = ''aggregate''
      then (case aggregate_data rt d of Inl e \<Rightarrow> Inl e | Inr r \<Rightarrow> Inr (r, n))
      else if processing_type = ''filter''
      then filter_data rt clock n d
      else if processing_type = ''transform''
      then Inr (transform_data rt d, n)
      else Inr (default_processing d, n))"

text \<open>Lines 23-28: a string is parsed as JSON; \<open>None\<close> is the caught decode error.\<close>

definition parse_input :: "'f runtime \<Rightarrow> 'f py \<Rightarrow> 'f py option" where
  "parse_input rt data0 = (case data0 of PStr s \<Rightarrow> json_loads rt s | _ \<Rightarrow> Some data0)"

text \<open>
  \<open>process_data\<close> returns what the call returns or raises, and the cache it leaves.
\<close>

definition process_data ::
  "'f runtime \<Rightarrow> config \<Rightarrow> clock \<Rightarrow> 'f cache \<Rightarrow> 'f py \<Rightarrow> string
     \<Rightarrow> (error + 'f py) \<times> 'f cache" where
  "process_data rt cfg clock cache data0 processing_type =
     (if py_falsy rt data0 then (Inr PNone, cache)
      else
        case parse_input rt data0 of
          None \<Rightarrow> (Inr PNone, cache)
        | Some d \<Rightarrow>
            (let cache_key = generate_cache_key rt d processing_type
             in case cache_lookup cfg clock cache_key cache of
                  (Some hit, cache1, n) \<Rightarrow> (Inr hit, cache1)
                | (None, cache1, n) \<Rightarrow>
                    (case dispatch rt clock n d processing_type of
                       Inl e \<Rightarrow> (Inl e, cache1)
                     | Inr (processed_data, n') \<Rightarrow>
                         (case cache_store cfg (clock n') cache_key processed_data cache1 of
                            Inl e \<Rightarrow> (Inl e, cache1)
                          | Inr cache2 \<Rightarrow> (Inr processed_data, cache2)))))"

definition clear_cache :: "'f cache \<Rightarrow> 'f cache" where
  "clear_cache cache = []"

definition get_cache_stats :: "config \<Rightarrow> 'f cache \<Rightarrow> 'f py" where
  "get_cache_stats cfg cache =
     PDict [(''size'', PInt (int (length cache))),
            (''max_size'', PInt (max_cache_size cfg)),
            (''ttl'', PInt (cache_ttl cfg)),
            (''keys'', PList (map (\<lambda>kv. PStr (fst kv)) cache))]"

text \<open>A sequence of public calls on one instance, from a given cache.\<close>

datatype 'f call = Process "'f py" string clock | ClearCache

fun run :: "'f runtime \<Rightarrow> config \<Rightarrow> 'f cache \<Rightarrow> 'f call list \<Rightarrow> 'f cache" where
  "run rt cfg cache [] = cache"
| "run rt cfg cache (Process d processing_type clock # calls) =
     run rt cfg (snd (process_data rt cfg clock cache d processing_type)) calls"
| "run rt cfg cache (ClearCache # calls) = run rt cfg (clear_cache cache) calls"

subsection \<open>A runtime for examples\<close>

text \<open>
  An instance of the runtime on which the model can be evaluated: a float is an exact
  rational (no rounding, no infinities or NaN, which read as 0), the digest of a text is
  the text itself, \<open>json.loads\<close> is a table of a few documents and rejects the rest, and
  no string is an ISO date. The theorems below hold for every runtime.
\<close>

definition nat_of_digits :: "string \<Rightarrow> nat" where
  "nat_of_digits s = foldl (\<lambda>a c. 10 * a + (of_char c - 48)) 0 (filter chr_isdecimal s)"

definition exact_float_value :: "string \<Rightarrow> rat" where
  "exact_float_value s =
     (let t = str_lower (float_strip s);
          u = drop_sign t;
          mant = takeWhile (\<lambda>c. c \<noteq> CHR ''e'') u;
          ex = drop 1 (dropWhile (\<lambda>c. c \<noteq> CHR ''e'') u);
          frac = drop 1 (dropWhile (\<lambda>c. c \<noteq> CHR ''.'') mant);
          m = of_nat (nat_of_digits mant) / 10 ^ length (filter chr_isdecimal frac);
          v = (if take 1 ex = ''-'' then m / 10 ^ nat_of_digits ex
               else m * 10 ^ nat_of_digits ex)
      in if take 1 t = ''-'' then - v else v)"

definition sample_json_loads :: "string \<Rightarrow> rat py option" where
  "sample_json_loads s =
     (if s = ''null'' then Some PNone
      else if s = ''[]'' then Some (PList [])
      else if s = ''[1, true]'' then Some (PList [PInt 1, PBool True])
      else if s = ''{\"a\": \"TRUE\"}'' then Some (PDict [(''a'', PStr ''TRUE'')])
      else None)"

definition sample_runtime :: "rat runtime" where
  "sample_runtime =
     \<lparr>float_value = exact_float_value,
      float_of_int = (\<lambda>i. Some (of_int i)),
      float_add = (\<lambda>f g. f + g),
      float_div = (\<lambda>f g. if g = 0 then None else Some (f / g)),
      int_truediv = (\<lambda>i j. if j = 0 then None else Some (of_int i / of_int j)),
      float_lt = (\<lambda>f g. f < g),
      float_le = (\<lambda>f g. f \<le> g),
      int_lt_float = (\<lambda>i g. of_int i < g),
      float_lt_int = (\<lambda>f j. f < of_int j),
      float_is_zero = (\<lambda>f. f = 0),
      float_repr = (\<lambda>f. show_int (fst (quotient_of f)) @ ''/'' @ show_int (snd (quotient_of f))),
      json_loads = sample_json_loads,
      md5_hexdigest = (\<lambda>s. s),
      fromisoformat = (\<lambda>s. None),
      isoformat = (\<lambda>d. [])\<rparr>"

subsection \<open>Notions used in the statements\<close>

text \<open>\<open>normalize(normalize(p))\<close>, an exception of the first call propagating.\<close>

definition normalize_twice :: "'f runtime \<Rightarrow> 'f py \<Rightarrow> error + 'f py" where
  "normalize_twice rt p =
     (case normalize_data rt p of Inl e \<Rightarrow> Inl e | Inr q \<Rightarrow> normalize_data rt q)"

text \<open>
  Every string stored directly under a mapping key, at any depth, has no leading or
  trailing whitespace.
\<close>

fun trimmed_values :: "'f py \<Rightarrow> bool"
  and trimmed_items :: "(string \<times> 'f py) list \<Rightarrow> bool"
  and trimmed_list :: "'f py list \<Rightarrow> bool"
where
  "trimmed_values (PDict kvs) = trimmed_items kvs"
| "trimmed_values (PList xs) = trimmed_list xs"
| "trimmed_values PNone = True"
| "trimmed_values (PBool b) = True"
| "trimmed_values (PInt i) = True"
| "trimmed_values (PFloat f) = True"
| "trimmed_values (PStr s) = True"
| "trimmed_items [] = True"
| "trimmed_items ((key, PStr s) # rest) = (str_strip s = s \<and> trimmed_items rest)"
| "trimmed_items ((key, v) # rest) = (trimmed_values v \<and> trimmed_items rest)"
| "trimmed_list [] = True"
| "trimmed_list (x # xs) = (trimmed_values x \<and> trimmed_list xs)"

text \<open>A value, or a mapping, that one more pass of the normalize loop leaves as it is.\<close>

definition stable_value :: "'f runtime \<Rightarrow> 'f py \<Rightarrow> bool" where
  "stable_value rt v =
     (case v of PStr s \<Rightarrow> normalize_str rt s = Inr (PStr s)
      | _ \<Rightarrow> normalize_data rt v = Inr v)"

definition stable_dict :: "'f runtime \<Rightarrow> (string \<times> 'f py) list \<Rightarrow> bool" where
  "stable_dict rt r =
     (distinct (map fst r) \<and> (\<forall>(k, v) \<in> set r. str_lower k = k \<and> stable_value rt v))"

text \<open>
  Two payloads are equal up to the insertion order of mapping keys, at every nesting
  level: the items of one mapping are a permutation of items that match the other's
  one by one. The keys of a mapping are distinct.
\<close>

inductive py_equiv :: "'f py \<Rightarrow> 'f py \<Rightarrow> bool" where
  equiv_none: "py_equiv PNone PNone"
| equiv_bool: "py_equiv (PBool b) (PBool b)"
| equiv_int: "py_equiv (PInt i) (PInt i)"
| equiv_float: "py_equiv (PFloat f) (PFloat f)"
| equiv_str: "py_equiv (PStr s) (PStr s)"
| equiv_list: "list_all2 py_equiv xs ys \<Longrightarrow> py_equiv (PList xs) (PList ys)"
| equiv_dict:
    "list_all2 (\<lambda>a b. fst a = fst b \<and> py_equiv (snd a) (snd b)) kvs1 kvs' \<Longrightarrow>
     mset kvs' = mset kvs2 \<Longrightarrow> distinct (map fst kvs1) \<Longrightarrow>
     py_equiv (PDict kvs1) (PDict kvs2)"

text \<open>A payload with every boolean element of a list replaced by the integer 0 or 1.\<close>

definition bool_as_int :: "'f py \<Rightarrow> 'f py" where
  "bool_as_int v = (case v of PBool b \<Rightarrow> PInt (int_of_bool b) | _ \<Rightarrow> v)"

definition num_bool_as_int :: "'f num \<Rightarrow> 'f num" where
  "num_bool_as_int x = (case x of NBool b \<Rightarrow> NInt (int_of_bool b) | _ \<Rightarrow> x)"

definition is_bool :: "'f py \<Rightarrow> bool" where
  "is_bool v = (case v of PBool _ \<Rightarrow> True | _ \<Rightarrow> False)"

definition is_int :: "'f py \<Rightarrow> bool" where
  "is_int v = (case v of PInt _ \<Rightarrow> True | _ \<Rightarrow> False)"

text \<open>Reading a field of a mapping, and a field of a field.\<close>

definition py_get :: "'f py \<Rightarrow> string \<Rightarrow> 'f py option" where
  "py_get d k = (case d of PDict kvs \<Rightarrow> map_of kvs k | _ \<Rightarrow> None)"

definition py_field :: "'f py \<Rightarrow> string \<Rightarrow> string \<Rightarrow> 'f py option" where
  "py_field r a b = (case py_get r a of None \<Rightarrow> None | Some d \<Rightarrow> py_get d b)"


section \<open>Properties\<close>

subsection \<open>Lower-casing and the character classes\<close>

lemma of_char_lower:
  "(of_char (chr_lower c) :: nat) =
     (let n = of_char c in if (65 \<le> n \<and> n \<le> 90) \<or> (192 \<le> n \<and> n \<le> 222 \<and> n \<noteq> 215) then n + 32 else n)"
  by (auto simp: chr_lower_def Let_def)

lemma chr_lower_idem: "chr_lower (chr_lower c) = chr_lower c"
proof -
  have "(of_char (chr_lower c) :: nat) < 65 \<or> (90 < (of_char (chr_lower c) :: nat) \<and> (of_char (chr_lower c) :: nat) < 192) \<or> 222 < (of_char (chr_lower c) :: nat) \<or> (of_char (chr_lower c) :: nat) = 215"
    unfolding of_char_lower Let_def by auto
  then show ?thesis
    by (subst (1) chr_lower_def) (auto simp: Let_def)
qed

lemma isspace_lower: "chr_isspace (chr_lower c) = chr_isspace c"
  unfolding chr_isspace_def of_char_lower Let_def by auto

lemma float_space_lower: "chr_float_space (chr_lower c) = chr_float_space c"
  unfolding chr_float_space_def of_char_lower Let_def by auto

lemma isdigit_lower: "chr_isdigit (chr_lower c) = chr_isdigit c"
  unfolding chr_isdigit_def of_char_lower Let_def by auto

lemma str_lower_idem: "str_lower (str_lower s) = str_lower s"
  by (simp add: str_lower_def chr_lower_idem)

lemma strip_map:
  assumes "\<And>c. P (f c) = P c"
  shows "rev (dropWhile P (rev (dropWhile P (map f s)))) = map f (rev (dropWhile P (rev (dropWhile P s))))"
proof -
  have d: "dropWhile P (map f xs) = map f (dropWhile P xs)" for xs
    by (simp add: dropWhile_map comp_def assms)
  show ?thesis by (simp only: d rev_map)
qed

lemma str_strip_lower: "str_strip (str_lower s) = str_lower (str_strip s)"
  by (simp add: str_strip_def str_lower_def strip_map isspace_lower)

lemma float_strip_lower: "float_strip (str_lower s) = str_lower (float_strip s)"
  by (simp add: float_strip_def str_lower_def strip_map float_space_lower)

lemma str_isdigit_lower: "str_isdigit (str_lower s) = str_isdigit s"
  by (simp add: str_isdigit_def str_lower_def list_all_iff isdigit_lower)

lemma float_syntax_lower: "float_syntax (str_lower s) = float_syntax s"
  by (simp add: float_syntax_def float_strip_lower str_lower_idem)


subsection \<open>normalize on payloads with trimmed values\<close>

lemma normalize_str_stable:
  assumes "str_strip s = s" and "normalize_str rt s = Inr v"
  shows "stable_value rt v"
proof (cases "\<exists>t. v = PStr t")
  case False
  then show ?thesis using assms(2)
    by (cases v) (auto simp: stable_value_def normalize_str_def split: if_splits option.splits)
next
  case True
  then obtain t where v: "v = PStr t" by blast
  from assms(2) v have a: "str_lower s \<notin> set [''true'', ''yes'', ''1'']"
    and b: "str_lower s \<notin> set [''false'', ''no'', ''0'']"
    and c: "\<not> str_isdigit s" and d: "float_of_str rt s = None"
    and t: "t = str_lower (str_strip s)"
    by (auto simp: normalize_str_def split: if_splits option.splits)
  from d have d': "float_of_str rt (str_lower s) = None"
    by (simp add: float_of_str_def float_syntax_lower split: if_splits)
  have "normalize_str rt (str_lower s) = Inr (PStr (str_lower s))"
    unfolding normalize_str_def
    using a b c d' assms(1) by (simp add: str_lower_idem str_isdigit_lower str_strip_lower)
  with t v assms(1) show ?thesis by (simp add: stable_value_def)
qed

lemma update_fresh: "k \<notin> fst ` set acc \<Longrightarrow> AList.update k v acc = acc @ [(k, v)]"
  by (induction acc) auto

lemma normalize_items_step:
  "stable_value rt v \<Longrightarrow>
   normalize_items rt ((k, v) # rest) acc = normalize_items rt rest (AList.update (str_lower k) v acc)"
  by (cases v) (auto simp: stable_value_def)

lemma normalize_items_stable:
  "stable_dict rt r \<Longrightarrow> fst ` set r \<inter> fst ` set acc = {} \<Longrightarrow>
   normalize_items rt r acc = Inr (PDict (acc @ r))"
proof (induction r arbitrary: acc)
  case Nil
  then show ?case by simp
next
  case (Cons kv r)
  obtain k v where kv: "kv = (k, v)" by (cases kv)
  from Cons.prems kv have sv: "stable_value rt v" and lk: "str_lower k = k"
    and sr: "stable_dict rt r" and kr: "k \<notin> fst ` set r" and ka: "k \<notin> fst ` set acc"
    by (auto simp: stable_dict_def)
  have disj: "fst ` set r \<inter> fst ` set (acc @ [(k, v)]) = {}"
    using Cons.prems(2) kr kv by auto
  show ?case
    using Cons.IH [OF sr disj] by (simp add: kv normalize_items_step [OF sv] lk update_fresh [OF ka])
qed

lemma set_alist_update: "set (AList.update k v al) \<subseteq> insert (k, v) (set al)"
  by (induction al) auto

lemma stable_dict_update:
  "stable_dict rt acc \<Longrightarrow> stable_value rt v \<Longrightarrow> stable_dict rt (AList.update (str_lower k) v acc)"
  unfolding stable_dict_def
  using set_alist_update [of "str_lower k" v acc]
  by (auto simp: distinct_update str_lower_idem)

lemma normalize_items_is_dict:
  "normalize_items rt kvs acc = Inr q \<Longrightarrow> \<exists>r. q = PDict r"
proof (induction kvs arbitrary: acc)
  case Nil then show ?case by auto
next
  case (Cons kv kvs)
  obtain k v where kv: "kv = (k, v)" by (cases kv)
  show ?case using Cons.prems Cons.IH unfolding kv
    by (cases v) (auto split: sum.splits)
qed

lemma normalize_fixed_aux:
  "(\<forall>q. trimmed_values p \<longrightarrow> normalize_data rt p = Inr q \<longrightarrow> normalize_data rt q = Inr q)"
  "(\<forall>q. trimmed_items kvs \<longrightarrow> stable_dict rt acc \<longrightarrow> normalize_items rt kvs acc = Inr q \<longrightarrow>
        (\<exists>r. q = PDict r \<and> stable_dict rt r))"
  "(\<forall>ys. trimmed_list xs \<longrightarrow> normalize_list rt xs = Inr ys \<longrightarrow> normalize_list rt ys = Inr ys)"
proof (induction rt p and rt kvs acc and rt xs rule: normalize_data_normalize_items_normalize_list.induct)
  case (1 rt kvs)
  show ?case
  proof (intro allI impI)
    fix q assume t: "trimmed_values (PDict kvs)" and n: "normalize_data rt (PDict kvs) = Inr q"
    have "stable_dict rt []" by (simp add: stable_dict_def)
    with 1 t n obtain r where q: "q = PDict r" and s: "stable_dict rt r" by auto
    from normalize_items_stable [OF s, of "[]"] show "normalize_data rt q = Inr q"
      by (simp add: q)
  qed
next
  case (2 rt xs)
  then show ?case by (auto split: sum.splits)
next
  case (9 rt key s rest normalized)
  show ?case
  proof (intro allI impI)
    fix q assume t: "trimmed_items ((key, PStr s) # rest)" and sd: "stable_dict rt normalized"
      and n: "normalize_items rt ((key, PStr s) # rest) normalized = Inr q"
    from n obtain v where v: "normalize_str rt s = Inr v"
      and n': "normalize_items rt rest (AList.update (str_lower key) v normalized) = Inr q"
      by (auto split: sum.splits)
    from t v have "stable_value rt v" by (auto intro: normalize_str_stable)
    with sd have "stable_dict rt (AList.update (str_lower key) v normalized)"
      by (rule stable_dict_update)
    with 9 [OF v] t n' show "\<exists>r. q = PDict r \<and> stable_dict rt r" by auto
  qed
next
  case (10 rt key xs rest normalized)
  show ?case
  proof (intro allI impI)
    fix q assume t: "trimmed_items ((key, PList xs) # rest)" and sd: "stable_dict rt normalized"
      and n: "normalize_items rt ((key, PList xs) # rest) normalized = Inr q"
    from n obtain v where v: "normalize_data rt (PList xs) = Inr v"
      and n': "normalize_items rt rest (AList.update (str_lower key) v normalized) = Inr q"
      by (auto split: sum.splits)
    from v obtain ys where ys: "v = PList ys" by (auto split: sum.splits)
    from "10.IH"(1) t v have "normalize_data rt v = Inr v" by auto
    then have "stable_value rt v" by (simp add: stable_value_def ys)
    with sd have "stable_dict rt (AList.update (str_lower key) v normalized)"
      by (rule stable_dict_update)
    with "10.IH"(2) [OF v] t n' show "\<exists>r. q = PDict r \<and> stable_dict rt r" by auto
  qed
next
  case (11 rt key d rest normalized)
  show ?case
  proof (intro allI impI)
    fix q assume t: "trimmed_items ((key, PDict d) # rest)" and sd: "stable_dict rt normalized"
      and n: "normalize_items rt ((key, PDict d) # rest) normalized = Inr q"
    from n obtain v where v: "normalize_data rt (PDict d) = Inr v"
      and n': "normalize_items rt rest (AList.update (str_lower key) v normalized) = Inr q"
      by (auto split: sum.splits)
    from v obtain r where r: "v = PDict r" using normalize_items_is_dict [of rt d "[]" v] by auto
    from "11.IH"(1) t v have "normalize_data rt v = Inr v" by auto
    then have "stable_value rt v" by (simp add: stable_value_def r)
    with sd have "stable_dict rt (AList.update (str_lower key) v normalized)"
      by (rule stable_dict_update)
    with "11.IH"(2) [OF v] t n' show "\<exists>r. q = PDict r \<and> stable_dict rt r" by auto
  qed
next
  case (14 rt x xs)
  then show ?case by (auto split: sum.splits)
qed (auto simp: stable_value_def intro!: stable_dict_update)

text \<open>
  C1, as stated: \<open>normalize(normalize(p)) == normalize(p)\<close> for every payload. It fails
  on \<open>{"a": " yes "}\<close>: the first pass finds no boolean token, no digits and no float,
  and stores the trimmed string \<open>"yes"\<close>; the second pass reads that as \<open>True\<close>.
\<close>

theorem normalize_not_idempotent:
  "normalize_twice sample_runtime (PDict [(''a'', PStr '' yes '')])
     \<noteq> normalize_data sample_runtime (PDict [(''a'', PStr '' yes '')])"
  by (simp add: normalize_twice_def) code_simp

text \<open>
  C1, amended: on a payload in which no string stored directly under a mapping key has
  leading or trailing whitespace, a second pass of normalize returns the payload the
  first pass returned (and an exception of the first pass is the result of both sides).
  The payloads are the same value; where the first pass produced a NaN, Python's
  \<open>==\<close> does not hold between the two results, as it never holds between NaNs.
\<close>

theorem normalize_idempotent_trimmed:
  "trimmed_values p \<Longrightarrow> normalize_twice rt p = normalize_data rt p"
  using normalize_fixed_aux(1) [of p rt]
  by (auto simp: normalize_twice_def split: sum.splits)

theorem normalize_idempotent_trimmed_witness:
  "trimmed_values (PDict [(''Name'', PStr ''Alice B''), (''n'', PStr ''12''),
       (''tags'', PList [PStr '' x '', PDict [(''OK'', PStr ''YES'')]])] :: rat py)
   \<and> normalize_twice sample_runtime
        (PDict [(''Name'', PStr ''Alice B''), (''n'', PStr ''12''),
           (''tags'', PList [PStr '' x '', PDict [(''OK'', PStr ''YES'')]])])
     = Inr (PDict [(''name'', PStr ''alice b''), (''n'', PInt 12),
           (''tags'', PList [PStr '' x '', PDict [(''ok'', PBool True)]])])"
proof -
  let ?p = "PDict [(''Name'', PStr ''Alice B''), (''n'', PStr ''12''),
       (''tags'', PList [PStr '' x '', PDict [(''OK'', PStr ''YES'')]])] :: rat py"
  have h: "trimmed_values ?p"
    by (simp add: str_strip_def chr_isspace_def)
  have v: "normalize_data sample_runtime ?p
     = Inr (PDict [(''name'', PStr ''alice b''), (''n'', PInt 12),
           (''tags'', PList [PStr '' x '', PDict [(''ok'', PBool True)]])])"
    by code_simp
  from h normalize_idempotent_trimmed [OF h, of sample_runtime] v show ?thesis
    by simp
qed

subsection \<open>aggregate on a payload that is not a list\<close>

text \<open>
  C7: aggregate applied to any payload that is not a sequence returns the mapping
  \<open>{"error": "Data must be a list for aggregation"}\<close> as an ordinary value; it does
  not raise.
\<close>

theorem aggregate_non_list_error:
  "(\<forall>xs. d \<noteq> PList xs) \<Longrightarrow>
   aggregate_data rt d = Inr (PDict [(''error'', PStr ''Data must be a list for aggregation'')])"
  by (cases d) (auto simp: aggregate_data_def)

theorem aggregate_non_list_error_witness:
  "(\<forall>xs. (PDict [(''a'', PInt 1)] :: rat py) \<noteq> PList xs) \<and>
   aggregate_data sample_runtime (PDict [(''a'', PInt 1)])
     = Inr (PDict [(''error'', PStr ''Data must be a list for aggregation'')])"
proof -
  have h: "\<forall>xs. (PDict [(''a'', PInt 1)] :: rat py) \<noteq> PList xs" by simp
  from h aggregate_non_list_error [OF h, of sample_runtime] show ?thesis by simp
qed

subsection \<open>The dispatcher on empty and malformed input\<close>

lemma process_falsy:
  "py_falsy rt d \<Longrightarrow>
   process_data rt cfg clock cache d processing_type = (Inr PNone, cache)"
  by (simp add: process_data_def)

lemma process_malformed_json:
  "json_loads rt s = None \<Longrightarrow>
   process_data rt cfg clock cache (PStr s) processing_type = (Inr PNone, cache)"
  by (simp add: process_data_def parse_input_def)

text \<open>
  C9: for each of the falsy payloads \<open>False\<close>, \<open>0\<close>, \<open>""\<close>, \<open>[]\<close> and \<open>{}\<close>
  (and \<open>None\<close>), \<open>process_data\<close> returns \<open>None\<close> and leaves the cache as it was,
  whatever the parser, the digest, the cache and the processing type are: nothing is
  parsed, no key is derived, the cache is not read and no routine runs.
\<close>

theorem process_falsy_returns_none:
  "process_data rt cfg clock cache (PBool False) processing_type = (Inr PNone, cache)
   \<and> process_data rt cfg clock cache (PInt 0) processing_type = (Inr PNone, cache)
   \<and> process_data rt cfg clock cache (PStr []) processing_type = (Inr PNone, cache)
   \<and> process_data rt cfg clock cache (PList []) processing_type = (Inr PNone, cache)
   \<and> process_data rt cfg clock cache (PDict []) processing_type = (Inr PNone, cache)
   \<and> process_data rt cfg clock cache PNone processing_type = (Inr PNone, cache)"
  by (simp add: process_data_def py_falsy_def)

text \<open>
  C6 says that \<open>process_data\<close> never raises. It returns \<open>None\<close> on a string that does
  not parse and on empty input (\<open>process_malformed_json\<close>, \<open>process_falsy\<close>), but
  normalize calls \<open>int(value)\<close> under the guard \<open>value.isdigit()\<close>, which the
  superscript digit U+00B2 passes while \<open>int\<close> rejects it: on the mapping of \<open>"a"\<close> to the
  one-character string U+00B2 the call raises \<open>ValueError\<close>.
\<close>

theorem process_raises_on_superscript_digit:
  "fst (process_data rt cfg clock [] (PDict [(''a'', PStr [CHR 0xB2])]) ''normalize'')
     = Inl ValueError"
proof -
  have a: "normalize_str rt [CHR 0xB2] = Inl ValueError"
    by (simp add: normalize_str_def str_lower_def chr_lower_def str_isdigit_def
        chr_isdigit_def int_of_str_def chr_isdecimal_def)
  show ?thesis
    by (simp add: process_data_def parse_input_def py_falsy_def cache_lookup_def
        dispatch_def a Let_def)
qed

subsection \<open>The transform scenario\<close>

lemma transform_key_userId: "transform_key ''userId'' = ''user_id''"
  by code_simp

lemma transform_value_url:
  "transform_value rt (PStr ''http://example.com/x'')
     = PDict [(''url'', PStr ''http://example.com/x''), (''domain'', PStr ''example.com'')]"
proof -
  have a: "\<not> is_date_string ''http://example.com/x''" by code_simp
  have b: "startswith ''http://example.com/x'' ''http://''" by code_simp
  have c: "extract_domain ''http://example.com/x'' = ''example.com''" by code_simp
  show ?thesis by (simp add: transform_str_def a b c)
qed

lemma transform_data_scenario:
  "transform_data rt (PDict [(''userId'', PStr ''http://example.com/x'')])
     = PDict [(''user_id'', PDict [(''url'', PStr ''http://example.com/x''),
                                    (''domain'', PStr ''example.com'')])]"
  by (simp add: transform_key_userId transform_value_url del: transform_value.simps)

subsection \<open>The size of the cache\<close>

lemma length_update_le: "length (AList.update k v al) \<le> Suc (length al)"
  by (induction al) auto

lemma length_delete_less: "k \<in> fst ` set al \<Longrightarrow> length (AList.delete k al) < length al"
  by (auto simp: AList.delete_eq intro!: length_filter_less)

lemma oldest_fold:
  "foldl (\<lambda>m x. if entry_timestamp (snd x) < entry_timestamp (snd m) then x else m) e es \<in> set (e # es)
   \<and> (\<forall>x \<in> set (e # es). entry_timestamp (snd (foldl (\<lambda>m x. if entry_timestamp (snd x) < entry_timestamp (snd m) then x else m) e es)) \<le> entry_timestamp (snd x))"
proof (induction es arbitrary: e)
  case Nil
  then show ?case by simp
next
  case (Cons a es)
  show ?case
  proof (cases "entry_timestamp (snd a) < entry_timestamp (snd e)")
    case True
    with Cons.IH [of a] show ?thesis by (auto intro: order_trans)
  next
    case False
    with Cons.IH [of e] show ?thesis by (auto intro: order_trans)
  qed
qed

lemma oldest_key_nonempty:
  assumes "cache \<noteq> []"
  shows "\<exists>k e. oldest_key cache = Inr k \<and> (k, e) \<in> set cache
           \<and> (\<forall>x \<in> set cache. entry_timestamp e \<le> entry_timestamp (snd x))"
proof -
  from assms obtain a es where c: "cache = a # es" by (cases cache) auto
  let ?m = "foldl (\<lambda>m x. if entry_timestamp (snd x) < entry_timestamp (snd m) then x else m) a es"
  have "oldest_key cache = Inr (fst ?m)" by (simp add: oldest_key_def c)
  moreover have "(fst ?m, snd ?m) \<in> set cache" using oldest_fold [of a es] by (simp add: c)
  moreover have "\<forall>x \<in> set cache. entry_timestamp (snd ?m) \<le> entry_timestamp (snd x)"
    using oldest_fold [of a es] unfolding c by blast
  ultimately show ?thesis by blast
qed

lemma cache_store_length:
  assumes "int (length cache) \<le> max_cache_size cfg" and "0 < max_cache_size cfg"
  shows "\<exists>c. cache_store cfg now k r cache = Inr c \<and> int (length c) \<le> max_cache_size cfg"
proof (cases "int (length cache) < max_cache_size cfg")
  case True
  then show ?thesis
    using length_update_le [of k "\<lparr>entry_data = r, entry_timestamp = now\<rparr>" cache]
    by (auto simp: cache_store_def Let_def)
next
  case False
  with assms have ne: "cache \<noteq> []" by auto
  from oldest_key_nonempty [OF ne] obtain ok e where ok: "oldest_key cache = Inr ok"
    and mem: "(ok, e) \<in> set cache" by blast
  from mem have "ok \<in> fst ` set cache" by force
  then have "length (AList.delete ok cache) < length cache" by (rule length_delete_less)
  with length_update_le [of k "\<lparr>entry_data = r, entry_timestamp = now\<rparr>" "AList.delete ok cache"]
  have "length (AList.update k \<lparr>entry_data = r, entry_timestamp = now\<rparr> (AList.delete ok cache)) \<le> length cache"
    by linarith
  with False assms ok show ?thesis
    by (auto simp: cache_store_def Let_def)
qed

lemma cache_lookup_length:
  "cache_lookup cfg clock k cache = (h, c1, n) \<Longrightarrow> length c1 \<le> length cache"
  by (auto simp: cache_lookup_def length_delete_le split: option.splits if_splits)

lemma process_data_length:
  assumes "int (length cache) \<le> max_cache_size cfg" and "0 < max_cache_size cfg"
  shows "int (length (snd (process_data rt cfg clock cache d processing_type))) \<le> max_cache_size cfg"
proof (cases "py_falsy rt d")
  case True
  with assms show ?thesis by (simp add: process_data_def)
next
  case nf: False
  show ?thesis
  proof (cases "parse_input rt d")
    case None
    with nf assms show ?thesis by (simp add: process_data_def)
  next
    case (Some d')
    obtain h c1 n where l: "cache_lookup cfg clock (generate_cache_key rt d' processing_type) cache = (h, c1, n)"
      by (cases "cache_lookup cfg clock (generate_cache_key rt d' processing_type) cache") auto
    from cache_lookup_length [OF l] assms have c1: "int (length c1) \<le> max_cache_size cfg" by linarith
    show ?thesis
    proof (cases h)
      case (Some hit)
      with nf \<open>parse_input rt d = Some d'\<close> l c1 show ?thesis
        by (simp add: process_data_def Let_def)
    next
      case None
      show ?thesis
      proof (cases "dispatch rt clock n d' processing_type")
        case (Inl e)
        with nf \<open>parse_input rt d = Some d'\<close> l c1 None show ?thesis
          by (simp add: process_data_def Let_def)
      next
        case (Inr rn)
        obtain r n' where rn: "rn = (r, n')" by (cases rn)
        from cache_store_length [OF c1 assms(2)]
        obtain c2 where "cache_store cfg (clock n') (generate_cache_key rt d' processing_type) r c1 = Inr c2"
          and "int (length c2) \<le> max_cache_size cfg" by blast
        with nf \<open>parse_input rt d = Some d'\<close> l None Inr rn show ?thesis
          by (simp add: process_data_def Let_def)
      qed
    qed
  qed
qed

lemma run_length:
  "int (length cache) \<le> max_cache_size cfg \<Longrightarrow> 0 < max_cache_size cfg \<Longrightarrow>
   int (length (run rt cfg cache calls)) \<le> max_cache_size cfg"
proof (induction calls arbitrary: cache)
  case Nil
  then show ?case by simp
next
  case (Cons c calls)
  show ?case
  proof (cases c)
    case (Process d pt clock)
    with Cons.IH [OF process_data_length [OF Cons.prems]] Cons.prems(2) show ?thesis by simp
  next
    case ClearCache
    with Cons.IH [of "[]"] Cons.prems(2) show ?thesis by (simp add: clear_cache_def)
  qed
qed

lemma cache_store_ok:
  "0 < max_cache_size cfg \<Longrightarrow> \<exists>c. cache_store cfg now k r cache = Inr c"
  by (cases cache) (auto simp: cache_store_def oldest_key_def Let_def)

text \<open>
  C8: on a processor whose cache does not hold the key of the call (a new one, say) and
  whose \<open>max_cache_size\<close> is positive, \<open>process_data\<close> of \<open>{"userId":
  "http://example.com/x"}\<close> with \<open>"transform"\<close> returns \<open>{"user_id": {"url":
  "http://example.com/x", "domain": "example.com"}}\<close>: the key is rewritten to snake case
  and the URL is replaced by a mapping of the URL and its host.
\<close>

theorem transform_scenario:
  assumes "map_of cache (generate_cache_key rt
             (PDict [(''userId'', PStr ''http://example.com/x'')]) ''transform'') = None"
    and "0 < max_cache_size cfg"
  shows "fst (process_data rt cfg clock cache
                (PDict [(''userId'', PStr ''http://example.com/x'')]) ''transform'')
           = Inr (PDict [(''user_id'', PDict [(''url'', PStr ''http://example.com/x''),
                                               (''domain'', PStr ''example.com'')])])
         \<and> transform_key ''userId'' = ''user_id''
         \<and> transform_value rt (PStr ''http://example.com/x'')
           = PDict [(''url'', PStr ''http://example.com/x''),
                    (''domain'', PStr ''example.com'')]"
proof -
  let ?d = "PDict [(''userId'', PStr ''http://example.com/x'')] :: 'a py"
  let ?r = "PDict [(''user_id'', PDict [(''url'', PStr ''http://example.com/x''),
                                        (''domain'', PStr ''example.com'')])] :: 'a py"
  obtain c where c: "cache_store cfg (clock 0) (generate_cache_key rt ?d ''transform'') ?r cache
                       = Inr c"
    using cache_store_ok [OF assms(2)] by blast
  have d: "dispatch rt clock 0 ?d ''transform'' = Inr (?r, 0)"
    by (simp add: dispatch_def transform_data_scenario del: transform_data.simps)
  have "fst (process_data rt cfg clock cache ?d ''transform'') = Inr ?r"
    using assms(1) c d
    by (simp add: process_data_def parse_input_def py_falsy_def cache_lookup_def Let_def
        del: transform_data.simps)
  then show ?thesis
    using transform_key_userId transform_value_url [of rt] by blast
qed

theorem transform_scenario_witness:
  "map_of ([] :: rat cache) (generate_cache_key sample_runtime
       (PDict [(''userId'', PStr ''http://example.com/x'')]) ''transform'') = None
   \<and> 0 < max_cache_size \<lparr>max_cache_size = 1000, cache_ttl = 3600\<rparr>
   \<and> fst (process_data sample_runtime \<lparr>max_cache_size = 1000, cache_ttl = 3600\<rparr> (\<lambda>n. 0) []
            (PDict [(''userId'', PStr ''http://example.com/x'')]) ''transform'')
       = Inr (PDict [(''user_id'', PDict [(''url'', PStr ''http://example.com/x''),
                                           (''domain'', PStr ''example.com'')])])"
proof -
  have h1: "map_of ([] :: rat cache) (generate_cache_key sample_runtime
       (PDict [(''userId'', PStr ''http://example.com/x'')]) ''transform'') = None"
    by simp
  have h2: "0 < max_cache_size \<lparr>max_cache_size = 1000, cache_ttl = 3600\<rparr>" by simp
  from h1 h2 transform_scenario [OF h1 h2, of "\<lambda>n. 0"] show ?thesis by blast
qed

text \<open>
  C3: from an empty cache, after any sequence of \<open>process_data\<close> and \<open>clear_cache\<close>
  calls on a processor whose \<open>max_cache_size\<close> is positive, the cache holds at most
  \<open>max_cache_size\<close> entries.
\<close>

theorem cache_size_bounded:
  "0 < max_cache_size cfg \<Longrightarrow> int (length (run rt cfg [] calls)) \<le> max_cache_size cfg"
  using run_length [of "[]" cfg rt calls] by simp

theorem cache_size_bounded_witness:
  "0 < max_cache_size \<lparr>max_cache_size = 2, cache_ttl = 10\<rparr>
   \<and> int (length (run sample_runtime \<lparr>max_cache_size = 2, cache_ttl = 10\<rparr> []
        [Process (PInt 1) ''default'' (\<lambda>n. 5), Process (PInt 2) ''default'' (\<lambda>n. 3),
         Process (PInt 3) ''default'' (\<lambda>n. 7), ClearCache,
         Process (PInt 4) ''normalize'' (\<lambda>n. 9)]))
     \<le> max_cache_size \<lparr>max_cache_size = 2, cache_ttl = 10\<rparr>"
proof -
  have h: "0 < max_cache_size \<lparr>max_cache_size = 2, cache_ttl = 10\<rparr>" by simp
  from h cache_size_bounded [OF h] show ?thesis by blast
qed

subsection \<open>Expiry on lookup\<close>








subsection \<open>Eviction\<close>

lemma delete_length_distinct:
  "distinct (map fst al) \<Longrightarrow> (k, v) \<in> set al \<Longrightarrow> Suc (length (AList.delete k al)) = length al"
proof (induction al)
  case Nil
  then show ?case by simp
next
  case (Cons a al)
  show ?case
  proof (cases "fst a = k")
    case True
    with Cons.prems(1) have "k \<notin> fst ` set al" by auto
    then have "AList.delete k al = al" by (induction al) auto
    with True show ?thesis by (cases a) simp
  next
    case False
    with Cons show ?thesis by (cases a) auto
  qed
qed

text \<open>
  C5: when the cache (a dict, so with distinct keys) holds \<open>max_cache_size\<close> entries,
  \<open>max_cache_size\<close> being positive, and a result is stored under a key that is not in
  the cache, the write-back removes exactly one entry, the one \<open>min\<close> selects, whose
  timestamp is least among all entries, and appends the new entry; every other entry
  stays. So no entry is evicted while an entry with a strictly older timestamp survives.
\<close>

theorem eviction_oldest:
  assumes "distinct (map fst cache)" and "int (length cache) = max_cache_size cfg"
    and "0 < max_cache_size cfg" and "map_of cache key = None"
  shows "\<exists>k e. oldest_key cache = Inr k \<and> map_of cache k = Some e
           \<and> (\<forall>k' e'. map_of cache k' = Some e' \<longrightarrow> entry_timestamp e \<le> entry_timestamp e')
           \<and> cache_store cfg now key r cache
               = Inr (AList.delete k cache @ [(key, \<lparr>entry_data = r, entry_timestamp = now\<rparr>)])
           \<and> Suc (length (AList.delete k cache)) = length cache
           \<and> map_of (AList.delete k cache) k = None
           \<and> (\<forall>k'. k' \<noteq> k \<longrightarrow> map_of (AList.delete k cache) k' = map_of cache k')"
proof -
  from assms(2,3) have ne: "cache \<noteq> []" by auto
  from oldest_key_nonempty [OF ne] obtain k e where ok: "oldest_key cache = Inr k"
    and mem: "(k, e) \<in> set cache"
    and least: "\<forall>x \<in> set cache. entry_timestamp e \<le> entry_timestamp (snd x)" by blast
  from mem assms(1) have m: "map_of cache k = Some e" by simp
  have l: "\<forall>k' e'. map_of cache k' = Some e' \<longrightarrow> entry_timestamp e \<le> entry_timestamp e'"
  proof (intro allI impI)
    fix k' e' assume "map_of cache k' = Some e'"
    then have "(k', e') \<in> set cache" by (rule map_of_SomeD)
    with least show "entry_timestamp e \<le> entry_timestamp e'" by force
  qed
  from assms(4) have "key \<notin> fst ` set cache" by (simp add: map_of_eq_None_iff)
  then have "key \<notin> fst ` set (AList.delete k cache)" by (auto simp: AList.delete_eq)
  then have u: "AList.update key \<lparr>entry_data = r, entry_timestamp = now\<rparr> (AList.delete k cache)
       = AList.delete k cache @ [(key, \<lparr>entry_data = r, entry_timestamp = now\<rparr>)]"
    by (rule update_fresh)
  have s: "cache_store cfg now key r cache
               = Inr (AList.delete k cache @ [(key, \<lparr>entry_data = r, entry_timestamp = now\<rparr>)])"
    using assms(2) ok u by (simp add: cache_store_def Let_def)
  from ok m l s delete_length_distinct [OF assms(1) mem] show ?thesis
    by (auto simp: delete_conv)
qed

theorem eviction_oldest_witness:
  "distinct (map fst [(''a'', \<lparr>entry_data = PInt 1 :: rat py, entry_timestamp = 5\<rparr>),
                      (''b'', \<lparr>entry_data = PInt 2, entry_timestamp = 3\<rparr>)])
   \<and> int (length [(''a'', \<lparr>entry_data = PInt 1 :: rat py, entry_timestamp = 5\<rparr>),
                   (''b'', \<lparr>entry_data = PInt 2, entry_timestamp = 3\<rparr>)])
       = max_cache_size \<lparr>max_cache_size = 2, cache_ttl = 10\<rparr>
   \<and> 0 < max_cache_size \<lparr>max_cache_size = 2, cache_ttl = 10\<rparr>
   \<and> map_of [(''a'', \<lparr>entry_data = PInt 1 :: rat py, entry_timestamp = 5\<rparr>),
              (''b'', \<lparr>entry_data = PInt 2, entry_timestamp = 3\<rparr>)] ''c'' = None
   \<and> cache_store \<lparr>max_cache_size = 2, cache_ttl = 10\<rparr> 9 ''c'' (PInt 3)
        [(''a'', \<lparr>entry_data = PInt 1 :: rat py, entry_timestamp = 5\<rparr>),
         (''b'', \<lparr>entry_data = PInt 2, entry_timestamp = 3\<rparr>)]
       = Inr [(''a'', \<lparr>entry_data = PInt 1, entry_timestamp = 5\<rparr>),
              (''c'', \<lparr>entry_data = PInt 3, entry_timestamp = 9\<rparr>)]"
proof -
  let ?c = "[(''a'', \<lparr>entry_data = PInt 1 :: rat py, entry_timestamp = 5\<rparr>),
             (''b'', \<lparr>entry_data = PInt 2, entry_timestamp = 3\<rparr>)]"
  let ?cfg = "\<lparr>max_cache_size = 2, cache_ttl = 10\<rparr>"
  have h1: "distinct (map fst ?c)" by simp
  have h2: "int (length ?c) = max_cache_size ?cfg" by simp
  have h3: "0 < max_cache_size ?cfg" by simp
  have h4: "map_of ?c ''c'' = None" by simp
  from eviction_oldest [OF h1 h2 h3 h4, of 9 "PInt 3"]
  obtain k where ok: "oldest_key ?c = Inr k"
    and st: "cache_store ?cfg 9 ''c'' (PInt 3) ?c
               = Inr (AList.delete k ?c @ [(''c'', \<lparr>entry_data = PInt 3, entry_timestamp = 9\<rparr>)])"
    by blast
  from ok have "k = ''b''" by (simp add: oldest_key_def)
  with st have "cache_store ?cfg 9 ''c'' (PInt 3) ?c
       = Inr [(''a'', \<lparr>entry_data = PInt 1, entry_timestamp = 5\<rparr>),
              (''c'', \<lparr>entry_data = PInt 3, entry_timestamp = 9\<rparr>)]"
    by (simp add: AList.delete_eq)
  with h1 h2 h3 h4 show ?thesis by blast
qed

subsection \<open>The key deriver and the order of mapping keys\<close>

lemma sort_key_perm_distinct:
  assumes "mset xs = mset ys" and "distinct (map f xs)"
  shows "sort_key f xs = sort_key f ys"
proof (rule sort_key_inj_key_eq)
  show "mset xs = mset (sort_key f ys)" using assms(1) by simp
  show "inj_on f (set xs)" using assms(2) by (simp add: distinct_map)
  show "sorted (map f (sort_key f ys))" by simp
qed

lemma insort_key_rel:
  assumes "list_all2 R xs ys" and "R a b" and "\<And>x y. R x y \<Longrightarrow> f x = f y"
  shows "list_all2 R (insort_key f a xs) (insort_key f b ys)"
  using assms(1)
proof (induction rule: list_all2_induct)
  case Nil
  then show ?case using assms(2) by simp
next
  case (Cons x xs y ys)
  from assms(3) [OF assms(2)] assms(3) [OF Cons.hyps(1)] Cons assms(2)
  show ?case by auto
qed

lemma sort_key_rel:
  assumes "list_all2 R xs ys" and "\<And>x y. R x y \<Longrightarrow> f x = f y"
  shows "list_all2 R (sort_key f xs) (sort_key f ys)"
  using assms(1)
proof (induction rule: list_all2_induct)
  case Nil
  then show ?case by simp
next
  case (Cons x xs y ys)
  then show ?case by (simp add: insort_key_rel [where R = R, OF _ _ assms(2)])
qed

lemma list_all2_map_eq:
  "list_all2 (\<lambda>x y. g x = g y) xs ys \<Longrightarrow> map g xs = map g ys"
  by (induction rule: list_all2_induct) auto

lemma json_dumps_equiv: "py_equiv p q \<Longrightarrow> json_dumps rt p = json_dumps rt q"
proof (induction rule: py_equiv.induct)
  case (equiv_list xs ys)
  then have "list_all2 (\<lambda>x y. json_dumps rt x = json_dumps rt y) xs ys"
    by (rule list_all2_mono) simp
  then have "map (json_dumps rt) xs = map (json_dumps rt) ys" by (rule list_all2_map_eq)
  then show ?case by simp
next
  case (equiv_dict kvs1 kvs' kvs2)
  let ?R = "\<lambda>a b. fst a = fst b \<and> json_dumps rt (snd a) = json_dumps rt (snd b)"
  let ?g = "\<lambda>kv. json_string (fst kv) @ '': '' @ json_dumps rt (snd kv)"
  from equiv_dict(1) have r: "list_all2 ?R kvs1 kvs'"
    by (rule list_all2_mono) simp
  then have "map fst kvs1 = map fst kvs'"
    by (induction rule: list_all2_induct) auto
  with equiv_dict(3) have "distinct (map fst kvs')" by simp
  with equiv_dict(2) have s: "sort_key fst kvs' = sort_key fst kvs2"
    by (rule sort_key_perm_distinct)
  from r have "list_all2 ?R (sort_key fst kvs1) (sort_key fst kvs')"
    by (rule sort_key_rel) simp
  then have "list_all2 (\<lambda>x y. ?g x = ?g y) (sort_key fst kvs1) (sort_key fst kvs')"
    by (rule list_all2_mono) simp
  then have "map ?g (sort_key fst kvs1) = map ?g (sort_key fst kvs')"
    by (rule list_all2_map_eq)
  with s show ?case by simp
qed simp_all

lemma py_equiv_example: "py_equiv
   (PDict [(''b'', PInt 1), (''a'', PDict [(''y'', PList [PBool True, PNone]), (''x'', PStr ''s'')])] :: rat py)
   (PDict [(''a'', PDict [(''x'', PStr ''s''), (''y'', PList [PBool True, PNone])]), (''b'', PInt 1)])"
proof -
  have inner: "py_equiv (PDict [(''y'', PList [PBool True, PNone]), (''x'', PStr ''s'')] :: rat py)
      (PDict [(''x'', PStr ''s''), (''y'', PList [PBool True, PNone])])"
    by (rule equiv_dict [where kvs' = "[(''y'', PList [PBool True, PNone]), (''x'', PStr ''s'')]"])
      (auto intro: py_equiv.intros)
  show ?thesis
    by (rule equiv_dict [where kvs' = "[(''b'', PInt 1), (''a'', PDict [(''x'', PStr ''s''), (''y'', PList [PBool True, PNone])])]"])
      (auto intro: py_equiv.intros inner)
qed

text \<open>
  C2: the key depends on the processing type and the payload only (it is a function of
  them: no state, no clock, no object identity), and two payloads that are equal up to
  the insertion order of mapping keys, at any nesting level, get the same key for every
  processing type.
\<close>

theorem cache_key_order_independent:
  "py_equiv p1 p2 \<Longrightarrow>
   generate_cache_key rt p1 processing_type = generate_cache_key rt p2 processing_type"
  by (simp add: generate_cache_key_def json_dumps_equiv)

theorem cache_key_order_independent_witness:
  "py_equiv
     (PDict [(''b'', PInt 1),
             (''a'', PDict [(''y'', PList [PBool True, PNone]), (''x'', PStr ''s'')])] :: rat py)
     (PDict [(''a'', PDict [(''x'', PStr ''s''), (''y'', PList [PBool True, PNone])]),
             (''b'', PInt 1)])
   \<and> generate_cache_key sample_runtime
       (PDict [(''b'', PInt 1),
               (''a'', PDict [(''y'', PList [PBool True, PNone]), (''x'', PStr ''s'')])])
       ''normalize''
     = generate_cache_key sample_runtime
       (PDict [(''a'', PDict [(''x'', PStr ''s''), (''y'', PList [PBool True, PNone])]),
               (''b'', PInt 1)])
       ''normalize''"
  using py_equiv_example cache_key_order_independent [OF py_equiv_example] by blast

subsection \<open>Booleans in aggregate\<close>

lemma py_get_dict: "py_get (PDict kvs) k = map_of kvs k"
  by (simp add: py_get_def)

lemma num_lt_bool_as_int:
  "num_lt rt (num_bool_as_int a) (num_bool_as_int b) = num_lt rt a b"
  by (cases a; cases b) (simp_all add: num_bool_as_int_def)

lemma num_add_bool_as_int:
  "num_add rt (num_bool_as_int a) (num_bool_as_int b) = num_add rt a b"
  by (cases a; cases b) (simp_all add: num_bool_as_int_def)

lemma num_add_not_bool: "num_add rt a b = Inr c \<Longrightarrow> num_bool_as_int c = c"
  by (cases a; cases b) (auto simp: num_bool_as_int_def split: option.splits)

lemma py_sum_from_bool_as_int:
  "num_bool_as_int acc = acc \<Longrightarrow>
   py_sum_from rt acc (map num_bool_as_int vs) = py_sum_from rt acc vs"
proof (induction vs arbitrary: acc)
  case Nil
  then show ?case by simp
next
  case (Cons v vs)
  have e: "num_add rt acc (num_bool_as_int v) = num_add rt acc v"
    using num_add_bool_as_int [of rt acc v] Cons.prems by simp
  show ?case
  proof (cases "num_add rt acc v")
    case (Inl err)
    then show ?thesis by (simp add: e)
  next
    case (Inr c)
    from num_add_not_bool [OF Inr] have "num_bool_as_int c = c" .
    from Cons.IH [OF this] Inr show ?thesis by (simp add: e)
  qed
qed

lemma py_sum_bool_as_int: "py_sum rt (map num_bool_as_int vs) = py_sum rt vs"
  by (simp add: py_sum_def py_sum_from_bool_as_int num_bool_as_int_def)

lemma py_sum_not_bool: "py_sum rt vs = Inr c \<Longrightarrow> num_bool_as_int c = c"
proof -
  have "num_bool_as_int acc = acc \<Longrightarrow> py_sum_from rt acc vs = Inr c \<Longrightarrow> num_bool_as_int c = c"
    for acc
  proof (induction vs arbitrary: acc)
    case Nil
    then show ?case by simp
  next
    case (Cons v vs)
    then show ?case by (auto split: sum.splits dest: num_add_not_bool)
  qed
  moreover have "num_bool_as_int (NInt 0) = NInt 0" by (simp add: num_bool_as_int_def)
  ultimately show "py_sum rt vs = Inr c \<Longrightarrow> num_bool_as_int c = c"
    unfolding py_sum_def by blast
qed

lemma py_min_bool_as_int:
  "py_min rt (num_bool_as_int v) (map num_bool_as_int vs) = num_bool_as_int (py_min rt v vs)"
  unfolding py_min_def
  by (induction vs arbitrary: v) (simp_all add: num_lt_bool_as_int)

lemma py_max_bool_as_int:
  "py_max rt (num_bool_as_int v) (map num_bool_as_int vs) = num_bool_as_int (py_max rt v vs)"
  unfolding py_max_def
  by (induction vs arbitrary: v) (simp_all add: num_lt_bool_as_int)

lemma py_of_num_bool_as_int: "py_of_num (num_bool_as_int x) = bool_as_int (py_of_num x)"
  by (cases x) (simp_all add: py_of_num_def num_bool_as_int_def bool_as_int_def)

lemma numeric_values_bool_as_int:
  "numeric_values (map bool_as_int xs) = map num_bool_as_int (numeric_values xs)"
proof (induction xs)
  case Nil
  then show ?case by simp
next
  case (Cons x xs)
  then show ?case by (cases x) (simp_all add: bool_as_int_def num_bool_as_int_def)
qed

lemma string_values_bool_as_int: "string_values (map bool_as_int xs) = string_values xs"
proof (induction xs)
  case Nil
  then show ?case by simp
next
  case (Cons x xs)
  then show ?case by (cases x) (simp_all add: bool_as_int_def)
qed

lemma numeric_values_bool: "PBool b \<in> set xs \<Longrightarrow> NBool b \<in> set (numeric_values xs)"
proof (induction xs)
  case Nil
  then show ?case by simp
next
  case (Cons x xs)
  then show ?case by (cases x) auto
qed

lemma numeric_stats_bool_as_int:
  assumes "numeric_stats rt xs = Inr ns"
  shows "\<exists>ns'. numeric_stats rt (map bool_as_int xs) = Inr ns'
           \<and> py_get ns' ''sum'' = py_get ns ''sum''
           \<and> py_get ns' ''avg'' = py_get ns ''avg''
           \<and> py_get ns' ''min'' = map_option bool_as_int (py_get ns ''min'')
           \<and> py_get ns' ''max'' = map_option bool_as_int (py_get ns ''max'')"
proof (cases "numeric_values xs")
  case Nil
  with assms show ?thesis
    by (auto simp: numeric_stats_def numeric_values_bool_as_int py_get_def)
next
  case (Cons v vs)
  from assms Cons obtain t a where t: "py_sum rt (v # vs) = Inr t"
    and a: "num_truediv rt t (int (length (v # vs))) = Inr a"
    and ns: "ns = PDict [(''min'', py_of_num (py_min rt v vs)),
                          (''max'', py_of_num (py_max rt v vs)),
                          (''avg'', PFloat a), (''sum'', py_of_num t)]"
    by (auto simp: numeric_stats_def split: sum.splits)
  have t': "py_sum rt (map num_bool_as_int (v # vs)) = Inr t"
    using t by (simp only: py_sum_bool_as_int)
  have "numeric_stats rt (map bool_as_int xs)
          = Inr (PDict [(''min'', bool_as_int (py_of_num (py_min rt v vs))),
                        (''max'', bool_as_int (py_of_num (py_max rt v vs))),
                        (''avg'', PFloat a), (''sum'', py_of_num t)])"
    using t' a Cons
    by (simp add: numeric_stats_def numeric_values_bool_as_int py_min_bool_as_int
        py_max_bool_as_int py_of_num_bool_as_int)
  with ns show ?thesis by (simp add: py_get_def)
qed

lemma string_stats_bool_as_int: "string_stats rt (map bool_as_int xs) = string_stats rt xs"
  by (simp add: string_stats_def string_values_bool_as_int)

lemma count_types_lookup:
  "map_of (count_types xs types) t
     = (if \<exists>x \<in> set xs. type_name x = t
        then Some ((case map_of types t of None \<Rightarrow> 0 | Some n \<Rightarrow> n)
                     + int (length (filter (\<lambda>x. type_name x = t) xs)))
        else map_of types t)"
proof (induction xs arbitrary: types)
  case Nil
  then show ?case by simp
next
  case (Cons x xs)
  show ?case by (simp add: Cons.IH update_conv')
qed

lemma type_name_bool: "(type_name x = ''bool'') = is_bool x"
  by (cases x) (simp_all add: type_name_def is_bool_def)

lemma type_name_int: "(type_name x = ''int'') = is_int x"
  by (cases x) (simp_all add: type_name_def is_int_def)

lemma map_of_map_PInt:
  "map_of (map (\<lambda>(k, n). (k, PInt n)) al) t = map_option PInt (map_of al t)"
  by (induction al) auto

text \<open>
  C10: when aggregate returns on a list, the histogram counts the booleans of the list
  under \<open>bool\<close> and only the integers that are not booleans under \<open>int\<close>; a list
  with a boolean has numeric statistics; and these are the statistics of the list with
  every boolean replaced by the integer 0 or 1: the same \<open>sum\<close> and \<open>avg\<close>, and
  the same \<open>min\<close> and \<open>max\<close> up to that replacement (\<open>min\<close> and \<open>max\<close>
  return the element itself, which may be a boolean).
\<close>

theorem aggregate_bools_numeric:
  assumes "aggregate_data rt (PList xs) = Inr r"
  shows "py_field r ''types'' ''bool''
           = (if list_ex is_bool xs then Some (PInt (int (length (filter is_bool xs)))) else None)
       \<and> py_field r ''types'' ''int''
           = (if list_ex is_int xs then Some (PInt (int (length (filter is_int xs)))) else None)
       \<and> (list_ex is_bool xs \<longrightarrow> py_field r ''numeric_stats'' ''sum'' \<noteq> None)
       \<and> (\<exists>r'. aggregate_data rt (PList (map bool_as_int xs)) = Inr r'
            \<and> py_field r' ''numeric_stats'' ''sum'' = py_field r ''numeric_stats'' ''sum''
            \<and> py_field r' ''numeric_stats'' ''avg'' = py_field r ''numeric_stats'' ''avg''
            \<and> py_field r' ''numeric_stats'' ''min''
                = map_option bool_as_int (py_field r ''numeric_stats'' ''min'')
            \<and> py_field r' ''numeric_stats'' ''max''
                = map_option bool_as_int (py_field r ''numeric_stats'' ''max''))"
proof -
  from assms obtain ns ss where ns: "numeric_stats rt xs = Inr ns"
    and ss: "string_stats rt xs = Inr ss"
    and r: "r = PDict [(''count'', PInt (int (length xs))),
                       (''types'', PDict (map (\<lambda>(k, n). (k, PInt n)) (count_types xs []))),
                       (''numeric_stats'', ns), (''string_stats'', ss)]"
    by (auto simp: aggregate_data_def split: sum.splits)
  have tb: "py_field r ''types'' ''bool''
           = (if list_ex is_bool xs then Some (PInt (int (length (filter is_bool xs)))) else None)"
    by (simp add: r py_field_def py_get_def map_of_map_PInt count_types_lookup type_name_bool
        list_ex_iff)
  have ti: "py_field r ''types'' ''int''
           = (if list_ex is_int xs then Some (PInt (int (length (filter is_int xs)))) else None)"
    by (simp add: r py_field_def py_get_def map_of_map_PInt count_types_lookup type_name_int
        list_ex_iff)
  have nb: "list_ex is_bool xs \<longrightarrow> py_field r ''numeric_stats'' ''sum'' \<noteq> None"
  proof
    assume "list_ex is_bool xs"
    then obtain x where xin: "x \<in> set xs" and xb: "is_bool x" by (auto simp: list_ex_iff)
    from xb have "\<exists>b. x = PBool b" by (simp add: is_bool_def split: py.splits)
    with xin obtain b where "PBool b \<in> set xs" by blast
    then have "NBool b \<in> set (numeric_values xs)" by (rule numeric_values_bool)
    then obtain v vs where "numeric_values xs = v # vs" by (cases "numeric_values xs") auto
    with ns show "py_field r ''numeric_stats'' ''sum'' \<noteq> None"
      by (auto simp: r py_field_def py_get_def numeric_stats_def split: sum.splits)
  qed
  from numeric_stats_bool_as_int [OF ns] obtain ns' where
    ns': "numeric_stats rt (map bool_as_int xs) = Inr ns'"
    and f: "py_get ns' ''sum'' = py_get ns ''sum''" "py_get ns' ''avg'' = py_get ns ''avg''"
      "py_get ns' ''min'' = map_option bool_as_int (py_get ns ''min'')"
      "py_get ns' ''max'' = map_option bool_as_int (py_get ns ''max'')"
    by blast
  have "aggregate_data rt (PList (map bool_as_int xs))
          = Inr (PDict [(''count'', PInt (int (length (map bool_as_int xs)))),
               (''types'', PDict (map (\<lambda>(k, n). (k, PInt n)) (count_types (map bool_as_int xs) []))),
               (''numeric_stats'', ns'), (''string_stats'', ss)])"
    using ns' ss by (simp add: aggregate_data_def string_stats_bool_as_int)
  with f have "\<exists>r'. aggregate_data rt (PList (map bool_as_int xs)) = Inr r'
            \<and> py_field r' ''numeric_stats'' ''sum'' = py_field r ''numeric_stats'' ''sum''
            \<and> py_field r' ''numeric_stats'' ''avg'' = py_field r ''numeric_stats'' ''avg''
            \<and> py_field r' ''numeric_stats'' ''min''
                = map_option bool_as_int (py_field r ''numeric_stats'' ''min'')
            \<and> py_field r' ''numeric_stats'' ''max''
                = map_option bool_as_int (py_field r ''numeric_stats'' ''max'')"
    by (simp add: r py_field_def py_get_dict)
  with tb ti nb show ?thesis by blast
qed

theorem aggregate_bools_numeric_witness:
  "aggregate_data sample_runtime (PList [PBool True, PInt 2, PBool False, PStr ''x''])
     = Inr (PDict
         [(''count'', PInt 4),
          (''types'', PDict [(''bool'', PInt 2), (''int'', PInt 1), (''str'', PInt 1)]),
          (''numeric_stats'',
           PDict [(''min'', PBool False), (''max'', PInt 2), (''avg'', PFloat 1),
                  (''sum'', PInt 3)]),
          (''string_stats'',
           PDict [(''total_length'', PInt 1), (''avg_length'', PFloat 1),
                  (''unique_count'', PInt 1)])])
   \<and> (\<exists>r'. aggregate_data sample_runtime
              (PList (map bool_as_int [PBool True, PInt 2, PBool False, PStr ''x''])) = Inr r'
          \<and> py_field r' ''numeric_stats'' ''sum'' = Some (PInt 3)
          \<and> py_field r' ''numeric_stats'' ''min'' = Some (PInt 0))"
proof -
  let ?r = "PDict
         [(''count'', PInt 4),
          (''types'', PDict [(''bool'', PInt 2), (''int'', PInt 1), (''str'', PInt 1)]),
          (''numeric_stats'',
           PDict [(''min'', PBool False), (''max'', PInt 2), (''avg'', PFloat 1),
                  (''sum'', PInt 3)]),
          (''string_stats'',
           PDict [(''total_length'', PInt 1), (''avg_length'', PFloat 1),
                  (''unique_count'', PInt 1)])] :: rat py"
  have h: "aggregate_data sample_runtime (PList [PBool True, PInt 2, PBool False, PStr ''x''])
             = Inr ?r"
    by code_simp
  have s: "py_field ?r ''numeric_stats'' ''sum'' = Some (PInt 3)"
    by (simp add: py_field_def py_get_def)
  have m: "map_option bool_as_int (py_field ?r ''numeric_stats'' ''min'') = Some (PInt 0)"
    by (simp add: py_field_def py_get_def bool_as_int_def int_of_bool_def)
  from aggregate_bools_numeric [OF h] s m h show ?thesis by auto
qed

end
